theory Spec2Isabelle
  imports Complex_Main "HOL-Library.Word"
begin

section \<open>Data model of the one-step SARSA worker\<close>

text \<open>
  The development embeds \<^verbatim>\<open>OneStepSarsaWorker::Step\<close> and \<^verbatim>\<open>Reset\<close> of
  \<^verbatim>\<open>one_step_sarsa_worker.hpp\<close>.  The four template parameters (environment,
  network, optimizer, policy) are not part of the file; their operations are taken as
  parameters, collected in the record \<open>collaborators\<close>.  \<^verbatim>\<open>size_t\<close> is a 64-bit
  word, \<^verbatim>\<open>double\<close> is idealised as \<open>real\<close>, \<^verbatim>\<open>arma::colvec\<close> is a list of
  reals and \<^verbatim>\<open>arma::mat\<close> a shape together with its elements in storage order.
  One call of \<open>Step\<close> is modelled as a sequential state transformer; the OpenMP pragmas
  (\<^verbatim>\<open>atomic\<close>, \<^verbatim>\<open>critical\<close>) are not modelled.
\<close>

type_synonym size_t = "64 word"

type_synonym colvec = "real list"

record mat =
  n_rows :: nat
  n_cols :: nat
  mem :: "real list"

datatype error =
    BufferOverrun           \<comment> \<open>\<^verbatim>\<open>pending[pendingIndex]\<close> outside the buffer\<close>
  | IndexOutOfRange         \<comment> \<open>\<^verbatim>\<open>actionValue[a]\<close> outside the vector\<close>
  | IncompatibleDimensions  \<comment> \<open>\<^verbatim>\<open>+=\<close> on matrices of different shape\<close>
  | DivisionByZero          \<comment> \<open>\<^verbatim>\<open>%\<close> by a zero interval\<close>
  | NoSuchWorker            \<comment> \<open>a schedule names a worker that does not exist\<close>

text \<open>\<^verbatim>\<open>TrainingConfig\<close>: the six accessors \<open>Step\<close> reads.\<close>

record TrainingConfig =
  StepLimit :: size_t
  UpdateInterval :: size_t
  Discount :: real
  GradientLimit :: real
  StepSize :: real
  TargetNetworkSyncInterval :: size_t

text \<open>
  \<^verbatim>\<open>SarsaWorkerTransitionType\<close>, with the fields of the aggregate written at
  lines 180--187 and read in the flush loop.  Actions are the values of an enumeration
  used as indices, hence natural numbers.
\<close>

record 's Transition =
  t_state :: 's
  t_action :: nat
  t_reward :: real
  t_nextState :: 's
  t_nextAction :: nat

text \<open>
  The worker object (\<^verbatim>\<open>this\<close>): the members of the base class that \<open>Step\<close>
  uses, and \<open>action\<close>.  The buffer \<open>pending\<close> is a vector that \<open>Step\<close> only reads and
  writes by index, so its size never changes; \<^verbatim>\<open>pending.size()\<close> is the length of the
  list.  By the spec the buffer has \<open>UpdateInterval\<close> entries.
\<close>

record ('s, 'n, 'u) worker =
  state :: 's
  action :: nat
  network :: 'n
  updater :: 'u
  config :: TrainingConfig
  deterministic :: bool
  episodeReturn :: real
  steps :: size_t
  pending :: "'s Transition list"
  pendingIndex :: size_t

text \<open>The five reference parameters of \<open>Step\<close>.\<close>

record ('n, 'p) shared =
  learningNetwork :: 'n
  targetNetwork :: 'n
  totalSteps :: size_t
  policy :: 'p
  totalReward :: real

text \<open>
  The operations of the template parameters.  Network calls are made on non-const
  objects and return the object they leave behind.  The type \<open>'w\<close> stands for whatever
  lies outside the worker and the five reference parameters: the environment object and
  the random generator the environment and the policy draw from.

  Modelled from the spec: the policy class is not in the source; by section 6 its
  \<open>Sample(actionValues, deterministic)\<close> yields an action and only \<open>Anneal\<close> changes
  the policy's schedule state, so \<open>pol_Sample\<close> reads the policy and draws from \<open>'w\<close>.
\<close>

record ('s, 'n, 'p, 'u, 'w) collaborators =
  action_size :: nat  \<comment> \<open>\<^verbatim>\<open>ActionType::size\<close>, the invalid action\<close>
  Encode :: "'s \<Rightarrow> colvec"
  env_Sample :: "'s \<Rightarrow> nat \<Rightarrow> 'w \<Rightarrow> (real \<times> 's) \<times> 'w"
  IsTerminal :: "'s \<Rightarrow> 'w \<Rightarrow> bool"
  InitialSample :: "'w \<Rightarrow> 's \<times> 'w"
  Predict :: "'n \<Rightarrow> colvec \<Rightarrow> colvec \<times> 'n"
  Forward :: "'n \<Rightarrow> colvec \<Rightarrow> colvec \<times> 'n"
  Backward :: "'n \<Rightarrow> colvec \<Rightarrow> colvec \<Rightarrow> mat \<times> 'n"
  Parameters :: "'n \<Rightarrow> mat"
  set_Parameters :: "'n \<Rightarrow> mat \<Rightarrow> 'n"
  pol_Sample :: "'p \<Rightarrow> colvec \<Rightarrow> bool \<Rightarrow> 'w \<Rightarrow> nat \<times> 'w"
  Anneal :: "'p \<Rightarrow> 'p"
  Update :: "'u \<Rightarrow> mat \<Rightarrow> real \<Rightarrow> mat \<Rightarrow> mat \<times> 'u"

text \<open>
  What a call does to objects other than the worker's own episode fields, in program
  order: the call's effects are returned as a list of events next to the new state.
\<close>

datatype event =
    EvCount           \<comment> \<open>\<^verbatim>\<open>totalSteps++\<close>\<close>
  | EvAppend nat      \<comment> \<open>\<^verbatim>\<open>pending[i] = {...}\<close>\<close>
  | EvUpdate mat      \<comment> \<open>the optimizer's \<^verbatim>\<open>Update\<close> with this gradient\<close>
  | EvRefresh         \<comment> \<open>\<^verbatim>\<open>this->network = learningNetwork\<close>\<close>
  | EvSync            \<comment> \<open>\<^verbatim>\<open>targetNetwork = learningNetwork\<close>\<close>
  | EvAnneal          \<comment> \<open>\<^verbatim>\<open>policy.Anneal()\<close>\<close>
  | EvReport real     \<comment> \<open>\<^verbatim>\<open>totalReward = episodeReturn\<close>\<close>
  | EvReset           \<comment> \<open>\<^verbatim>\<open>Reset()\<close>\<close>

text \<open>The local variables of \<open>Step\<close> that live past line 161.\<close>

record 's locals =
  reward :: real
  nextState :: 's
  nextAction :: nat
  terminal :: bool

text \<open>What a call of \<open>Step\<close> returns and leaves behind.\<close>

record ('s, 'n, 'p, 'u, 'w) outcome =
  ret :: bool
  this :: "('s, 'n, 'u) worker"
  refs :: "('n, 'p) shared"
  world :: 'w
  trace :: "event list"

section \<open>Matrices and vectors\<close>

definition zeros :: "nat \<Rightarrow> nat \<Rightarrow> mat" where
  "zeros r c = \<lparr>n_rows = r, n_cols = c, mem = replicate (r * c) 0\<rparr>"

text \<open>\<^verbatim>\<open>a += b\<close>: Armadillo refuses operands of different shape.  The third test holds
  for every matrix whose storage has \<open>n_rows * n_cols\<close> elements.\<close>

definition mat_add :: "mat \<Rightarrow> mat \<Rightarrow> error + mat" where
  "mat_add a b =
     (if n_rows a = n_rows b \<and> n_cols a = n_cols b \<and> length (mem a) = length (mem b)
      then Inr (a\<lparr>mem := map2 (+) (mem a) (mem b)\<rparr>)
      else Inl IncompatibleDimensions)"

definition transform :: "(real \<Rightarrow> real) \<Rightarrow> mat \<Rightarrow> mat" where
  "transform f a = a\<lparr>mem := map f (mem a)\<rparr>"

text \<open>The lambda of lines 226--228.\<close>

definition clamp :: "real \<Rightarrow> real \<Rightarrow> real" where
  "clamp limit gradient = min (max gradient (- limit)) limit"

definition elem_at :: "colvec \<Rightarrow> nat \<Rightarrow> error + real" where
  "elem_at v i = (if i < length v then Inr (v ! i) else Inl IndexOutOfRange)"

definition elem_put :: "colvec \<Rightarrow> nat \<Rightarrow> real \<Rightarrow> error + colvec" where
  "elem_put v i x = (if i < length v then Inr (v[i := x]) else Inl IndexOutOfRange)"

section \<open>Reset\<close>

text \<open>
  Modelled from the spec: \<^verbatim>\<open>WorkerBase::Reset\<close> is not in the source.  Section 4.4
  has it clear the episode return, the step counter and \<open>pendingIndex\<close>, and leave the
  local network and the buffer's contents alone.  The spec does not say in which state
  the next episode starts; the environment's \<open>InitialSample\<close> supplies it.
\<close>

definition base_Reset ::
  "('s, 'n, 'p, 'u, 'w) collaborators \<Rightarrow> ('s, 'n, 'u) worker \<Rightarrow> 'w \<Rightarrow> ('s, 'n, 'u) worker \<times> 'w" where
  "base_Reset ops w wd =
     (let (s, wd') = InitialSample ops wd
      in (w\<lparr>state := s, episodeReturn := 0, steps := 0, pendingIndex := 0\<rparr>, wd'))"

text \<open>Lines 269--273.\<close>

definition Reset ::
  "('s, 'n, 'p, 'u, 'w) collaborators \<Rightarrow> ('s, 'n, 'u) worker \<Rightarrow> 'w \<Rightarrow> ('s, 'n, 'u) worker \<times> 'w" where
  "Reset ops w wd =
     (let (w', wd') = base_Reset ops w wd
      in (w'\<lparr>action := action_size ops\<rparr>, wd'))"

section \<open>Step\<close>

text \<open>Lines 144--150: at the beginning of an episode the action is the invalid one and
  the first action is sampled from the local network's estimate.\<close>

definition first_action ::
  "('s, 'n, 'p, 'u, 'w) collaborators \<Rightarrow> ('s, 'n, 'u) worker \<Rightarrow> ('n, 'p) shared \<Rightarrow> 'w
     \<Rightarrow> nat \<times> 'n \<times> 'w" where
  "first_action ops w r wd =
     (if action w = action_size ops
      then (let (actionValue, net) = Predict ops (network w) (Encode ops (state w));
                (a, wd') = pol_Sample ops (policy r) actionValue (deterministic w) wd
            in (a, net, wd'))
      else (action w, network w, wd))"

text \<open>Line 152, the environment's answer to the call: the reward and the next state,
  with the outside world as the environment leaves it.\<close>

definition env_response ::
  "('s, 'n, 'p, 'u, 'w) collaborators \<Rightarrow> ('s, 'n, 'u) worker \<Rightarrow> ('n, 'p) shared \<Rightarrow> 'w
     \<Rightarrow> (real \<times> 's) \<times> 'w" where
  "env_response ops w r wd =
     (let (a, net1, wd1) = first_action ops w r wd in env_Sample ops (state w) a wd1)"

text \<open>Lines 144--161: choose the action, sample the environment, pre-select the next
  action, account for the reward and the step, decide whether the episode ends.\<close>

definition interact ::
  "('s, 'n, 'p, 'u, 'w) collaborators \<Rightarrow> ('s, 'n, 'u) worker \<Rightarrow> ('n, 'p) shared \<Rightarrow> 'w
     \<Rightarrow> ('s, 'n, 'u) worker \<times> 's locals \<times> 'w" where
  "interact ops w r wd =
     (let (a, net1, wd1) = first_action ops w r wd;
          ((rew, nxt), wd2) = env_Sample ops (state w) a wd1;
          term = IsTerminal ops nxt wd2;
          (actionValue, net2) = Predict ops net1 (Encode ops nxt);
          (nxtA, wd3) = pol_Sample ops (policy r) actionValue (deterministic w) wd2;
          w1 = w\<lparr>action := a, network := net2,
                 episodeReturn := episodeReturn w + rew, steps := steps w + 1\<rparr>;
          term' = (term \<or> StepLimit (config w1) \<le> steps w1)
      in (w1, \<lparr>reward = rew, nextState = nxt, nextAction = nxtA, terminal = term'\<rparr>, wd3))"

text \<open>
  Lines 196--218, the body of the flush loop for buffer entry \<open>i\<close>: the training
  target, then the gradient of the local network.  It returns the gradient with the
  local and the target network as the calls leave them.  The argument \<open>n\<close> is
  \<^verbatim>\<open>pending.size()\<close>; inside the loop it is positive, so \<^verbatim>\<open>pending.size() - 1\<close>
  does not wrap around.
\<close>

definition target_value ::
  "TrainingConfig \<Rightarrow> bool \<Rightarrow> nat \<Rightarrow> nat \<Rightarrow> 's Transition \<Rightarrow> colvec \<Rightarrow> error + real" where
  "target_value cfg term n i tr actionValue =
     (case (if \<not> (term \<and> i = n - 1) then elem_at actionValue (t_nextAction tr) else Inr 0) of
        Inl e \<Rightarrow> Inl e
      | Inr targetActionValue \<Rightarrow> Inr (t_reward tr + Discount cfg * targetActionValue))"

definition transition_gradient ::
  "('s, 'n, 'p, 'u, 'w) collaborators \<Rightarrow> TrainingConfig \<Rightarrow> bool \<Rightarrow> nat \<Rightarrow> nat \<Rightarrow> 's Transition
     \<Rightarrow> 'n \<Rightarrow> 'n \<Rightarrow> error + (mat \<times> 'n \<times> 'n)" where
  "transition_gradient ops cfg term n i tr net tgt =
     (let (actionValue, tgt') = Predict ops tgt (Encode ops (t_nextState tr))
      in case target_value cfg term n i tr actionValue of
           Inl e \<Rightarrow> Inl e
         | Inr targetActionValue \<Rightarrow>
             (let input = Encode ops (t_state tr);
                  (actionValue2, net1) = Forward ops net (Encode ops (t_state tr))
              in case elem_put actionValue2 (t_action tr) targetActionValue of
                   Inl e \<Rightarrow> Inl e
                 | Inr actionValue3 \<Rightarrow>
                     (let (gradients, net2) = Backward ops net1 input actionValue3
                      in Inr (gradients, net2, tgt'))))"

text \<open>Lines 194--222: the loop runs \<open>i\<close> over the whole of \<open>pending\<close>.\<close>

function gradient_loop ::
  "('s, 'n, 'p, 'u, 'w) collaborators \<Rightarrow> TrainingConfig \<Rightarrow> bool \<Rightarrow> 's Transition list \<Rightarrow> nat
     \<Rightarrow> mat \<Rightarrow> 'n \<Rightarrow> 'n \<Rightarrow> error + (mat \<times> 'n \<times> 'n)" where
  "gradient_loop ops cfg term pend i totalGradients net tgt =
     (if i < length pend
      then (case transition_gradient ops cfg term (length pend) i (pend ! i) net tgt of
              Inl e \<Rightarrow> Inl e
            | Inr (gradients, net', tgt') \<Rightarrow>
                (case mat_add totalGradients gradients of
                   Inl e \<Rightarrow> Inl e
                 | Inr tot \<Rightarrow> gradient_loop ops cfg term pend (i + 1) tot net' tgt'))
      else Inr (totalGradients, net, tgt))"
  by pat_completeness auto
termination
  by (relation "measure (\<lambda>(ops, cfg, term, pend, i, tot, net, tgt). length pend - i)") auto

declare gradient_loop.simps [simp del]

text \<open>Lines 190--243, the gradient flush.\<close>

definition flush ::
  "('s, 'n, 'p, 'u, 'w) collaborators \<Rightarrow> bool \<Rightarrow> ('s, 'n, 'u) worker \<Rightarrow> ('n, 'p) shared
     \<Rightarrow> error + (('s, 'n, 'u) worker \<times> ('n, 'p) shared \<times> event list)" where
  "flush ops term w r =
     (let P = Parameters ops (learningNetwork r);
          totalGradients = zeros (n_rows P) (n_cols P)
      in case gradient_loop ops (config w) term (pending w) 0 totalGradients
                (network w) (targetNetwork r) of
           Inl e \<Rightarrow> Inl e
         | Inr (tot, net, tgt) \<Rightarrow>
             (let clamped = transform (clamp (GradientLimit (config w))) tot;
                  (P', u') = Update ops (updater w) P (StepSize (config w)) clamped;
                  learning' = set_Parameters ops (learningNetwork r) P'
              in Inr (w\<lparr>network := learning', updater := u', pendingIndex := 0\<rparr>,
                      r\<lparr>learningNetwork := learning', targetNetwork := tgt\<rparr>,
                      [EvUpdate clamped, EvRefresh])))"

text \<open>Lines 180--187: the transition is written at \<open>pendingIndex\<close>, which is then
  incremented.  The caller checks that the index lies inside the buffer.\<close>

definition append_pending :: "('s, 'n, 'u) worker \<Rightarrow> 's locals \<Rightarrow> ('s, 'n, 'u) worker" where
  "append_pending w l =
     w\<lparr>pending := (pending w)[unat (pendingIndex w) :=
          \<lparr>t_state = state w, t_action = action w, t_reward = reward l,
           t_nextState = nextState l, t_nextAction = nextAction l\<rparr>],
       pendingIndex := pendingIndex w + 1\<rparr>"

text \<open>Lines 177--243: count the step, buffer the transition, flush if the episode ends
  or the index has reached the update interval.\<close>

definition buffer_and_flush ::
  "('s, 'n, 'p, 'u, 'w) collaborators \<Rightarrow> ('s, 'n, 'u) worker \<Rightarrow> 's locals \<Rightarrow> ('n, 'p) shared
     \<Rightarrow> error + (('s, 'n, 'u) worker \<times> ('n, 'p) shared \<times> event list)" where
  "buffer_and_flush ops w l r =
     (let r1 = r\<lparr>totalSteps := totalSteps r + 1\<rparr>;
          k = unat (pendingIndex w)
      in if length (pending w) \<le> k then Inl BufferOverrun
         else
           (let w1 = append_pending w l
            in if terminal l \<or> UpdateInterval (config w1) \<le> pendingIndex w1
               then (case flush ops (terminal l) w1 r1 of
                       Inl e \<Rightarrow> Inl e
                     | Inr (w2, r2, flushed) \<Rightarrow> Inr (w2, r2, [EvCount, EvAppend k] @ flushed))
               else Inr (w1, r1, [EvCount, EvAppend k])))"

text \<open>Lines 246--250: the target network is overwritten when the step counter is a
  multiple of the sync interval.\<close>

definition sync_target ::
  "('s, 'n, 'u) worker \<Rightarrow> ('n, 'p) shared \<Rightarrow> error + (('n, 'p) shared \<times> event list)" where
  "sync_target w r =
     (if TargetNetworkSyncInterval (config w) = 0 then Inl DivisionByZero
      else if totalSteps r mod TargetNetworkSyncInterval (config w) = 0
           then Inr (r\<lparr>targetNetwork := learningNetwork r\<rparr>, [EvSync])
           else Inr (r, []))"

text \<open>Lines 177--262, the rest of \<open>Step\<close> in stochastic mode.\<close>

definition train ::
  "('s, 'n, 'p, 'u, 'w) collaborators \<Rightarrow> ('s, 'n, 'u) worker \<Rightarrow> 's locals \<Rightarrow> ('n, 'p) shared \<Rightarrow> 'w
     \<Rightarrow> error + ('s, 'n, 'p, 'u, 'w) outcome" where
  "train ops w l r wd =
     (case buffer_and_flush ops w l r of
        Inl e \<Rightarrow> Inl e
      | Inr (w2, r2, buffered) \<Rightarrow>
          (case sync_target w2 r2 of
             Inl e \<Rightarrow> Inl e
           | Inr (r3, synced) \<Rightarrow>
               (let r4 = r3\<lparr>policy := Anneal ops (policy r3)\<rparr>;
                    evs = buffered @ synced @ [EvAnneal]
                in if terminal l
                   then (let r5 = r4\<lparr>totalReward := episodeReturn w2\<rparr>;
                             (w3, wd') = Reset ops w2 wd
                         in Inr \<lparr>ret = True, this = w3, refs = r5, world = wd',
                                 trace = evs @ [EvReport (episodeReturn w2), EvReset]\<rparr>)
                   else Inr \<lparr>ret = False,
                             this = w2\<lparr>state := nextState l, action := nextAction l\<rparr>,
                             refs = r4, world = wd, trace = evs\<rparr>)))"

text \<open>Lines 137--263.\<close>

definition Step ::
  "('s, 'n, 'p, 'u, 'w) collaborators \<Rightarrow> ('s, 'n, 'u) worker \<Rightarrow> ('n, 'p) shared \<Rightarrow> 'w
     \<Rightarrow> error + ('s, 'n, 'p, 'u, 'w) outcome" where
  "Step ops w r wd =
     (let (w1, l, wd1) = interact ops w r wd
      in if deterministic w1
         then (if terminal l
               then (let r1 = r\<lparr>totalReward := episodeReturn w1\<rparr>;
                         (w2, wd2) = Reset ops w1 wd1
                     in Inr \<lparr>ret = True, this = w2\<lparr>network := learningNetwork r1\<rparr>,
                             refs = r1, world = wd2,
                             trace = [EvReport (episodeReturn w1), EvReset, EvRefresh]\<rparr>)
               else Inr \<lparr>ret = False,
                         this = w1\<lparr>state := nextState l, action := nextAction l\<rparr>,
                         refs = r, world = wd1, trace = []\<rparr>)
         else train ops w1 l r wd1)"

section \<open>The gradients of a flush, one by one\<close>

text \<open>The matrices that the loop of lines 194--222 adds to \<open>totalGradients\<close>, in the
  order in which it adds them: the value of \<^verbatim>\<open>gradients\<close> at line 221 for
  \<open>i\<close>, \<open>i + 1\<close>, ...\<close>

function transition_gradients ::
  "('s, 'n, 'p, 'u, 'w) collaborators \<Rightarrow> TrainingConfig \<Rightarrow> bool \<Rightarrow> 's Transition list \<Rightarrow> nat
     \<Rightarrow> 'n \<Rightarrow> 'n \<Rightarrow> error + mat list" where
  "transition_gradients ops cfg term pend i net tgt =
     (if i < length pend
      then (case transition_gradient ops cfg term (length pend) i (pend ! i) net tgt of
              Inl e \<Rightarrow> Inl e
            | Inr (gradients, net', tgt') \<Rightarrow>
                (case transition_gradients ops cfg term pend (i + 1) net' tgt' of
                   Inl e \<Rightarrow> Inl e
                 | Inr gs \<Rightarrow> Inr (gradients # gs)))
      else Inr [])"
  by pat_completeness auto
termination
  by (relation "measure (\<lambda>(ops, cfg, term, pend, i, net, tgt). length pend - i)") auto

declare transition_gradients.simps [simp del]

text \<open>The elementwise sum of matrices of shape \<open>r\<close> by \<open>c\<close>, as the spec words it.\<close>

definition elementwise_sum :: "nat \<Rightarrow> nat \<Rightarrow> mat list \<Rightarrow> mat" where
  "elementwise_sum r c gs =
     \<lparr>n_rows = r, n_cols = c, mem = map (\<lambda>k. \<Sum>g\<leftarrow>gs. mem g ! k) [0..<r * c]\<rparr>"

section \<open>Several workers on one shared state\<close>

text \<open>
  Modelled from the spec: the loop that calls \<open>Step\<close> is not in the source.  By
  section 5 every worker runs its own call loop on the shared learning state.  Calls
  are taken one at a time here: a schedule lists, call by call, the index of the worker
  that makes the call.  What a worker does to its own fields, and how often the counter
  is incremented, does not depend on how calls overlap; what a call reads from the
  shared state after its increment does, and is treated with \<open>interleave\<close> below.
\<close>

record ('s, 'n, 'p, 'u, 'w) system =
  workers :: "('s, 'n, 'u) worker list"
  common :: "('n, 'p) shared"
  outside :: 'w

fun run ::
  "('s, 'n, 'p, 'u, 'w) collaborators \<Rightarrow> nat list \<Rightarrow> ('s, 'n, 'p, 'u, 'w) system
     \<Rightarrow> error + ('s, 'n, 'p, 'u, 'w) system" where
  "run ops [] s = Inr s"
| "run ops (i # sched) s =
     (if length (workers s) \<le> i then Inl NoSuchWorker
      else (case Step ops (workers s ! i) (common s) (outside s) of
              Inl e \<Rightarrow> Inl e
            | Inr out \<Rightarrow>
                run ops sched \<lparr>workers = (workers s)[i := this out], common = refs out,
                               outside = world out\<rparr>))"

text \<open>The number of calls in a schedule made by workers in stochastic mode.\<close>

definition stochastic_calls :: "('s, 'n, 'u) worker list \<Rightarrow> nat list \<Rightarrow> nat" where
  "stochastic_calls ws sched = length (filter (\<lambda>i. \<not> deterministic (ws ! i)) sched)"

text \<open>
  One episode of one worker.  Each call finds the shared state and the outside world as
  the other workers and the environment have left them, so they are given call by call.
  The calls stop with the first one that returns true; the result is the number of calls
  made and whether the episode has ended.
\<close>

fun episode_calls ::
  "('s, 'n, 'p, 'u, 'w) collaborators \<Rightarrow> ('s, 'n, 'u) worker \<Rightarrow> (('n, 'p) shared \<times> 'w) list
     \<Rightarrow> error + (nat \<times> bool)" where
  "episode_calls ops w [] = Inr (0, False)"
| "episode_calls ops w ((r, wd) # rest) =
     (case Step ops w r wd of
        Inl e \<Rightarrow> Inl e
      | Inr out \<Rightarrow>
          if ret out then Inr (1, True)
          else (case episode_calls ops (this out) rest of
                  Inl e \<Rightarrow> Inl e
                | Inr (n, ended) \<Rightarrow> Inr (Suc n, ended)))"

section \<open>Calls that overlap\<close>

text \<open>
  Modelled from the spec: the threads that call \<open>Step\<close> are not in the source.  By
  section 5 the workers are parallel threads that no scheduler steps in lockstep.  In
  stochastic mode a call increments the shared counter atomically at line 178 and reads
  it again at line 246, with nothing that keeps other threads out in between.  The call
  is cut in two at that point: lines 143--178, and lines 180--262.  Each part runs
  without interruption here; real threads can interleave more finely, and every
  schedule of the two parts is one that they can produce.
\<close>

text \<open>Lines 143--178 in stochastic mode: the interaction with the environment and the
  increment of the counter.  It leaves the worker and the locals as they are at line 180.\<close>

definition begin_call ::
  "('s, 'n, 'p, 'u, 'w) collaborators \<Rightarrow> ('s, 'n, 'u) worker \<Rightarrow> ('n, 'p) shared \<Rightarrow> 'w
     \<Rightarrow> ('s, 'n, 'u) worker \<times> 's locals \<times> ('n, 'p) shared \<times> 'w" where
  "begin_call ops w r wd =
     (let (w1, l, wd1) = interact ops w r wd
      in (w1, l, r\<lparr>totalSteps := totalSteps r + 1\<rparr>, wd1))"

text \<open>Lines 180--243, with the shared state as the call finds it after its increment.\<close>

definition buffer_counted ::
  "('s, 'n, 'p, 'u, 'w) collaborators \<Rightarrow> ('s, 'n, 'u) worker \<Rightarrow> 's locals \<Rightarrow> ('n, 'p) shared
     \<Rightarrow> error + (('s, 'n, 'u) worker \<times> ('n, 'p) shared \<times> event list)" where
  "buffer_counted ops w l r =
     (let k = unat (pendingIndex w)
      in if length (pending w) \<le> k then Inl BufferOverrun
         else
           (let w1 = append_pending w l
            in if terminal l \<or> UpdateInterval (config w1) \<le> pendingIndex w1
               then (case flush ops (terminal l) w1 r of
                       Inl e \<Rightarrow> Inl e
                     | Inr (w2, r2, flushed) \<Rightarrow> Inr (w2, r2, [EvAppend k] @ flushed))
               else Inr (w1, r, [EvAppend k])))"

text \<open>Lines 180--262, with the shared state as the call finds it after its increment.
  The effects it lists begin after the increment.\<close>

definition finish_call ::
  "('s, 'n, 'p, 'u, 'w) collaborators \<Rightarrow> ('s, 'n, 'u) worker \<Rightarrow> 's locals \<Rightarrow> ('n, 'p) shared \<Rightarrow> 'w
     \<Rightarrow> error + ('s, 'n, 'p, 'u, 'w) outcome" where
  "finish_call ops w l r wd =
     (case buffer_counted ops w l r of
        Inl e \<Rightarrow> Inl e
      | Inr (w2, r2, buffered) \<Rightarrow>
          (case sync_target w2 r2 of
             Inl e \<Rightarrow> Inl e
           | Inr (r3, synced) \<Rightarrow>
               (let r4 = r3\<lparr>policy := Anneal ops (policy r3)\<rparr>;
                    evs = buffered @ synced @ [EvAnneal]
                in if terminal l
                   then (let r5 = r4\<lparr>totalReward := episodeReturn w2\<rparr>;
                             (w3, wd') = Reset ops w2 wd
                         in Inr \<lparr>ret = True, this = w3, refs = r5, world = wd',
                                 trace = evs @ [EvReport (episodeReturn w2), EvReset]\<rparr>)
                   else Inr \<lparr>ret = False,
                             this = w2\<lparr>state := nextState l, action := nextAction l\<rparr>,
                             refs = r4, world = wd, trace = evs\<rparr>)))"

text \<open>A thread is between two calls, or inside a call in stochastic mode after line 178,
  with the worker and the locals of that call.\<close>

datatype ('s, 'n, 'u) thread =
    Idle "('s, 'n, 'u) worker"
  | Counted "('s, 'n, 'u) worker" "'s locals"

record ('s, 'n, 'p, 'u, 'w) threads =
  pool :: "('s, 'n, 'u) thread list"
  shared_state :: "('n, 'p) shared"
  surroundings :: 'w

text \<open>A schedule lists the threads in the order in which they take their next part.  A
  call in deterministic mode returns before line 178 and is taken whole.\<close>

fun interleave ::
  "('s, 'n, 'p, 'u, 'w) collaborators \<Rightarrow> nat list \<Rightarrow> ('s, 'n, 'p, 'u, 'w) threads
     \<Rightarrow> error + ('s, 'n, 'p, 'u, 'w) threads" where
  "interleave ops [] s = Inr s"
| "interleave ops (i # sched) s =
     (if length (pool s) \<le> i then Inl NoSuchWorker
      else (case pool s ! i of
              Idle w \<Rightarrow>
                if deterministic w
                then (case Step ops w (shared_state s) (surroundings s) of
                        Inl e \<Rightarrow> Inl e
                      | Inr out \<Rightarrow>
                          interleave ops sched
                            \<lparr>pool = (pool s)[i := Idle (this out)], shared_state = refs out,
                             surroundings = world out\<rparr>)
                else (let (w1, l, r1, wd1) = begin_call ops w (shared_state s) (surroundings s)
                      in interleave ops sched
                           \<lparr>pool = (pool s)[i := Counted w1 l], shared_state = r1,
                            surroundings = wd1\<rparr>)
            | Counted w1 l \<Rightarrow>
                (case finish_call ops w1 l (shared_state s) (surroundings s) of
                   Inl e \<Rightarrow> Inl e
                 | Inr out \<Rightarrow>
                     interleave ops sched
                       \<lparr>pool = (pool s)[i := Idle (this out)], shared_state = refs out,
                        surroundings = world out\<rparr>)))"

section \<open>A small instance\<close>

text \<open>
  A two-action instance on which the definitions can be run: states are numbered, the
  network is a vector with one value per action, whatever the state, and its gradient is
  the difference between the value and the target; the policy always takes action 1;
  every step is rewarded with 1 and leads to the next state, and states from 3 on are
  terminal.
\<close>

definition toy :: "(nat, real list, nat, unit, nat) collaborators" where
  "toy = \<lparr>action_size = 2,
          Encode = (\<lambda>s. [real s]),
          env_Sample = (\<lambda>s a wd. ((1, s + 1), wd + 1)),
          IsTerminal = (\<lambda>s wd. 3 \<le> s),
          InitialSample = (\<lambda>wd. (0, wd)),
          Predict = (\<lambda>n x. (n, n)),
          Forward = (\<lambda>n x. (n, n)),
          Backward = (\<lambda>n x t. (\<lparr>n_rows = length n, n_cols = 1, mem = map2 (-) n t\<rparr>, n)),
          Parameters = (\<lambda>n. \<lparr>n_rows = length n, n_cols = 1, mem = n\<rparr>),
          set_Parameters = (\<lambda>n P. mem P),
          pol_Sample = (\<lambda>p v det wd. (1, wd)),
          Anneal = Suc,
          Update = (\<lambda>u P step G. (P\<lparr>mem := map2 (\<lambda>p g. p - step * g) (mem P) (mem G)\<rparr>, u))\<rparr>"

definition toy_config :: TrainingConfig where
  "toy_config = \<lparr>StepLimit = 10, UpdateInterval = 3, Discount = 9 / 10, GradientLimit = 1,
                 StepSize = 1 / 2, TargetNetworkSyncInterval = 2\<rparr>"

definition blank :: "nat Transition" where
  "blank = \<lparr>t_state = 0, t_action = 0, t_reward = 0, t_nextState = 0, t_nextAction = 0\<rparr>"

text \<open>A worker at the beginning of an episode in state \<open>s\<close>, its buffer as constructed.\<close>

definition toy_worker :: "bool \<Rightarrow> nat \<Rightarrow> (nat, real list, unit) worker" where
  "toy_worker det s =
     \<lparr>state = s, action = 2, network = [1, 2], updater = (), config = toy_config,
      deterministic = det, episodeReturn = 0, steps = 0, pending = [blank, blank, blank],
      pendingIndex = 0\<rparr>"

definition toy_shared :: "(real list, nat) shared" where
  "toy_shared = \<lparr>learningNetwork = [1, 2], targetNetwork = [1, 2], totalSteps = 0, policy = 0,
                 totalReward = 0\<rparr>"

text \<open>The transition that a step from state \<open>s\<close> records.\<close>

definition toy_transition :: "nat \<Rightarrow> nat Transition" where
  "toy_transition s =
     \<lparr>t_state = s, t_action = 1, t_reward = 1, t_nextState = s + 1, t_nextAction = 1\<rparr>"

text \<open>A worker whose buffer holds three transitions, as when the update interval is
  reached (the scenario of the spec: rewards 1, bootstrap values 2, discount 0.9).\<close>

definition toy_full :: "(nat, real list, unit) worker" where
  "toy_full =
     (toy_worker False 3)\<lparr>action := 1, episodeReturn := 3, steps := 3,
        pending := [toy_transition 0, toy_transition 1, toy_transition 2], pendingIndex := 3\<rparr>"

text \<open>What the first call of a training worker in state 0 leaves behind: the episode
  goes on, one transition is buffered.\<close>

definition toy_out_go :: "(nat, real list, nat, unit, nat) outcome" where
  "toy_out_go =
     \<lparr>ret = False,
      this = (toy_worker False 1)\<lparr>action := 1, episodeReturn := 1, steps := 1,
               pending := [toy_transition 0, blank, blank], pendingIndex := 1\<rparr>,
      refs = toy_shared\<lparr>totalSteps := 1, policy := 1\<rparr>,
      world = 1, trace = [EvCount, EvAppend 0, EvAnneal]\<rparr>"

text \<open>What the first call of a training worker in state 2 leaves behind: the next state
  is terminal, and the flush runs with one transition in a buffer of three.\<close>

definition toy_out_end :: "(nat, real list, nat, unit, nat) outcome" where
  "toy_out_end =
     \<lparr>ret = True,
      this = (toy_worker False 0)\<lparr>network := [1 / 2, 12 / 5],
               pending := [toy_transition 2, blank, blank]\<rparr>,
      refs = \<lparr>learningNetwork = [1 / 2, 12 / 5], targetNetwork = [1, 2], totalSteps = 1,
              policy = 1, totalReward = 1\<rparr>,
      world = 1,
      trace = [EvCount, EvAppend 0, EvUpdate \<lparr>n_rows = 2, n_cols = 1, mem = [1, - (4 / 5)]\<rparr>,
               EvRefresh, EvAnneal, EvReport 1, EvReset]\<rparr>"

text \<open>A system of two workers, one training from state 1 and one evaluating.\<close>

definition toy_system :: "(nat, real list, nat, unit, nat) system" where
  "toy_system =
     \<lparr>workers = [toy_worker False 1, toy_worker True 0], common = toy_shared, outside = 0\<rparr>"

text \<open>The training worker and the shared state after one call of each worker.\<close>

definition toy_mid_worker :: "(nat, real list, unit) worker" where
  "toy_mid_worker =
     (toy_worker False 2)\<lparr>action := 1, episodeReturn := 1, steps := 1,
        pending := [toy_transition 1, blank, blank], pendingIndex := 1\<rparr>"

definition toy_mid_shared :: "(real list, nat) shared" where
  "toy_mid_shared = toy_shared\<lparr>totalSteps := 1, policy := 1\<rparr>"

text \<open>What the training worker's second call leaves behind: the episode ends, the flush
  runs, and the step counter reaches the sync interval.\<close>

definition toy_out_sync :: "(nat, real list, nat, unit, nat) outcome" where
  "toy_out_sync =
     \<lparr>ret = True,
      this = (toy_worker False 0)\<lparr>network := [1 / 2, 5 / 2],
               pending := [toy_transition 1, toy_transition 2, blank]\<rparr>,
      refs = \<lparr>learningNetwork = [1 / 2, 5 / 2], targetNetwork = [1 / 2, 5 / 2], totalSteps = 2,
              policy = 2, totalReward = 2\<rparr>,
      world = 3,
      trace = [EvCount, EvAppend 1, EvUpdate \<lparr>n_rows = 2, n_cols = 1, mem = [1, - 1]\<rparr>,
               EvRefresh, EvSync, EvAnneal, EvReport 2, EvReset]\<rparr>"

text \<open>The evaluating worker after its first call from state 0.\<close>

definition toy_eval_worker :: "(nat, real list, unit) worker" where
  "toy_eval_worker = (toy_worker True 1)\<lparr>action := 1, episodeReturn := 1, steps := 1\<rparr>"

definition toy_system_end :: "(nat, real list, nat, unit, nat) system" where
  "toy_system_end =
     \<lparr>workers = [this toy_out_sync, toy_eval_worker], common = refs toy_out_sync, outside = 3\<rparr>"

text \<open>What a call of an evaluating worker leaves behind, from state 0 and from state 2.\<close>

definition toy_eval_go :: "(nat, real list, nat, unit, nat) outcome" where
  "toy_eval_go =
     \<lparr>ret = False, this = toy_eval_worker, refs = toy_shared, world = 1, trace = []\<rparr>"

definition toy_eval_end :: "(nat, real list, nat, unit, nat) outcome" where
  "toy_eval_end =
     \<lparr>ret = True, this = toy_worker True 0, refs = toy_shared\<lparr>totalReward := 1\<rparr>, world = 1,
      trace = [EvReport 1, EvReset, EvRefresh]\<rparr>"

text \<open>Two training workers on one shared state, and what the second call of the first
  worker leaves behind when the other worker's increment falls between its own
  increment and its read of the counter.\<close>

definition toy_pair :: "(nat, real list, nat, unit, nat) threads" where
  "toy_pair =
     \<lparr>pool = [Idle (toy_worker False 1), Idle (toy_worker False 0)], shared_state = toy_shared,
      surroundings = 0\<rparr>"

definition toy_counted :: "(nat, real list, unit) worker" where
  "toy_counted = toy_mid_worker\<lparr>episodeReturn := 2, steps := 2\<rparr>"

definition toy_counted_locals :: "nat locals" where
  "toy_counted_locals = \<lparr>reward = 1, nextState = 3, nextAction = 1, terminal = True\<rparr>"

definition toy_out_raced :: "(nat, real list, nat, unit, nat) outcome" where
  "toy_out_raced =
     \<lparr>ret = True,
      this = (toy_worker False 0)\<lparr>network := [1 / 2, 5 / 2],
               pending := [toy_transition 1, toy_transition 2, blank]\<rparr>,
      refs = \<lparr>learningNetwork = [1 / 2, 5 / 2], targetNetwork = [1, 2], totalSteps = 3,
              policy = 2, totalReward = 2\<rparr>,
      world = 3,
      trace = [EvAppend 1, EvUpdate \<lparr>n_rows = 2, n_cols = 1, mem = [1, - 1]\<rparr>,
               EvRefresh, EvAnneal, EvReport 2, EvReset]\<rparr>"

definition toy_pair_raced :: "(nat, real list, nat, unit, nat) threads" where
  "toy_pair_raced =
     \<lparr>pool = [Idle (this toy_out_raced),
              Idle ((toy_worker False 1)\<lparr>action := 1, episodeReturn := 1, steps := 1,
                      pending := [toy_transition 0, blank, blank], pendingIndex := 1\<rparr>)],
      shared_state = (refs toy_out_raced)\<lparr>policy := 3\<rparr>,
      surroundings = 3\<rparr>"

section \<open>What each part of a call changes\<close>

lemma interact_frame:
  assumes "interact ops w r wd = (w1, l, wd1)"
  shows "config w1 = config w" "deterministic w1 = deterministic w" "pending w1 = pending w"
    "pendingIndex w1 = pendingIndex w" "updater w1 = updater w" "state w1 = state w"
    "steps w1 = steps w + 1" "episodeReturn w1 = episodeReturn w + reward l"
  using assms by (auto simp: interact_def Let_def split: prod.splits)

lemma interact_terminal:
  assumes "interact ops w r wd = (w1, l, wd1)" "env_response ops w r wd = ((rew, nxt), wd2)"
  shows "terminal l = (IsTerminal ops nxt wd2 \<or> StepLimit (config w) \<le> steps w + 1)"
    "nextState l = nxt" "reward l = rew"
  using assms by (auto simp: interact_def env_response_def Let_def split: prod.splits)

lemma flush_frame:
  assumes "flush ops term w r = Inr (w', r', evs)"
  shows "pendingIndex w' = 0" "config w' = config w" "deterministic w' = deterministic w"
    "pending w' = pending w" "steps w' = steps w" "episodeReturn w' = episodeReturn w"
    "state w' = state w" "action w' = action w" "network w' = learningNetwork r'"
    "totalSteps r' = totalSteps r" "policy r' = policy r" "totalReward r' = totalReward r"
    "\<exists>G. evs = [EvUpdate G, EvRefresh]"
  using assms by (auto simp: flush_def Let_def split: prod.splits sum.splits)

lemma Reset_frame:
  assumes "Reset ops w wd = (w', wd')"
  shows "action w' = action_size ops" "episodeReturn w' = 0" "steps w' = 0" "pendingIndex w' = 0"
    "network w' = network w" "pending w' = pending w" "updater w' = updater w"
    "config w' = config w" "deterministic w' = deterministic w"
    "(state w', wd') = InitialSample ops wd"
  using assms by (auto simp: Reset_def base_Reset_def Let_def split: prod.splits)

lemma buffer_and_flush_frame:
  assumes "buffer_and_flush ops w l r = Inr (w2, r2, evs)"
  shows "unat (pendingIndex w) < length (pending w)"
    "config w2 = config w" "deterministic w2 = deterministic w" "steps w2 = steps w"
    "episodeReturn w2 = episodeReturn w" "state w2 = state w" "action w2 = action w"
    "pending w2 = pending (append_pending w l)"
    "totalSteps r2 = totalSteps r + 1" "policy r2 = policy r" "totalReward r2 = totalReward r"
    "pendingIndex w2 = (if terminal l \<or> UpdateInterval (config w) \<le> pendingIndex w + 1
                        then 0 else pendingIndex w + 1)"
  using assms unfolding buffer_and_flush_def
  by (auto simp: Let_def append_pending_def split: prod.splits sum.splits if_splits dest: flush_frame)

lemma sync_target_frame:
  assumes "sync_target w r = Inr (r', evs)"
  shows "TargetNetworkSyncInterval (config w) \<noteq> 0"
    "totalSteps r' = totalSteps r" "policy r' = policy r" "totalReward r' = totalReward r"
    "learningNetwork r' = learningNetwork r"
    "evs = (if totalSteps r mod TargetNetworkSyncInterval (config w) = 0 then [EvSync] else [])"
    "targetNetwork r' = (if totalSteps r mod TargetNetworkSyncInterval (config w) = 0
                         then learningNetwork r else targetNetwork r)"
  using assms unfolding sync_target_def by (auto split: if_splits)

lemma train_Inr:
  assumes "train ops w l r wd = Inr out"
  obtains w2 r2 buffered r3 synced where
    "buffer_and_flush ops w l r = Inr (w2, r2, buffered)"
    "sync_target w2 r2 = Inr (r3, synced)"
    "ret out = terminal l"
    "refs out = (if terminal l then r3\<lparr>policy := Anneal ops (policy r3), totalReward := episodeReturn w2\<rparr>
                 else r3\<lparr>policy := Anneal ops (policy r3)\<rparr>)"
    "trace out = buffered @ synced @ [EvAnneal] @
        (if terminal l then [EvReport (episodeReturn w2), EvReset] else [])"
    "this out = (if terminal l then fst (Reset ops w2 wd)
                 else w2\<lparr>state := nextState l, action := nextAction l\<rparr>)"
    "world out = (if terminal l then snd (Reset ops w2 wd) else wd)"
  using assms unfolding train_def
  by (auto simp: Let_def split: prod.splits sum.splits if_splits)

lemma Step_deterministic:
  assumes "deterministic w" "interact ops w r wd = (w1, l, wd1)"
  shows "Step ops w r wd =
     (if terminal l
      then Inr \<lparr>ret = True, this = (fst (Reset ops w1 wd1))\<lparr>network := learningNetwork r\<rparr>,
                refs = r\<lparr>totalReward := episodeReturn w1\<rparr>, world = snd (Reset ops w1 wd1),
                trace = [EvReport (episodeReturn w1), EvReset, EvRefresh]\<rparr>
      else Inr \<lparr>ret = False, this = w1\<lparr>state := nextState l, action := nextAction l\<rparr>,
                refs = r, world = wd1, trace = []\<rparr>)"
  using assms interact_frame(2)[OF assms(2)]
  by (simp add: Step_def Let_def split: prod.splits)

lemma Step_stochastic:
  assumes "\<not> deterministic w" "interact ops w r wd = (w1, l, wd1)"
  shows "Step ops w r wd = train ops w1 l r wd1"
  using assms interact_frame(2)[OF assms(2)]
  by (simp add: Step_def Let_def split: prod.splits)

lemma Step_ret:
  assumes "Step ops w r wd = Inr out" "interact ops w r wd = (w1, l, wd1)"
  shows "ret out = terminal l"
proof (cases "deterministic w")
  case True
  then show ?thesis using assms by (auto simp: Step_deterministic[OF True assms(2)] split: if_splits)
next
  case False
  then have "train ops w1 l r wd1 = Inr out" using assms by (simp add: Step_stochastic)
  then show ?thesis by (rule train_Inr)
qed

lemma Step_totalReward:
  assumes "Step ops w r wd = Inr out" "interact ops w r wd = (w1, l, wd1)"
  shows "totalReward (refs out) = (if terminal l then episodeReturn w + reward l else totalReward r)"
proof (cases "deterministic w")
  case True
  then show ?thesis using assms interact_frame(8)[OF assms(2)]
    by (auto simp: Step_deterministic[OF True assms(2)] split: if_splits)
next
  case False
  then have "train ops w1 l r wd1 = Inr out" using assms by (simp add: Step_stochastic)
  then show ?thesis
  proof (rule train_Inr)
    fix w2 r2 buffered r3 synced
    assume a: "buffer_and_flush ops w1 l r = Inr (w2, r2, buffered)"
      "sync_target w2 r2 = Inr (r3, synced)"
      "refs out = (if terminal l then r3\<lparr>policy := Anneal ops (policy r3), totalReward := episodeReturn w2\<rparr>
                 else r3\<lparr>policy := Anneal ops (policy r3)\<rparr>)"
    show ?thesis
      using a(3) buffer_and_flush_frame(5,11)[OF a(1)] sync_target_frame(4)[OF a(2)]
        interact_frame(8)[OF assms(2)]
      by (simp split: if_splits)
  qed
qed

lemma Step_frame:
  assumes "Step ops w r wd = Inr out"
  shows "config (this out) = config w" "deterministic (this out) = deterministic w"
    "length (pending (this out)) = length (pending w)"
proof -
  obtain w1 l wd1 where i: "interact ops w r wd = (w1, l, wd1)" by (cases "interact ops w r wd") auto
  note f = interact_frame[OF i]
  show "config (this out) = config w" "deterministic (this out) = deterministic w"
    "length (pending (this out)) = length (pending w)"
  proof (atomize (full), cases "deterministic w")
    case True
    obtain w' wd' where rs: "Reset ops w1 wd1 = (w', wd')" by (cases "Reset ops w1 wd1") auto
    show "config (this out) = config w \<and> deterministic (this out) = deterministic w \<and>
      length (pending (this out)) = length (pending w)"
      using assms f Reset_frame[OF rs] rs
      by (auto simp: Step_deterministic[OF True i] split: if_splits)
  next
    case False
    then have t: "train ops w1 l r wd1 = Inr out" using assms i by (simp add: Step_stochastic)
    show "config (this out) = config w \<and> deterministic (this out) = deterministic w \<and>
      length (pending (this out)) = length (pending w)"
    proof (rule train_Inr[OF t])
      fix w2 r2 buffered r3 synced
      assume a: "buffer_and_flush ops w1 l r = Inr (w2, r2, buffered)"
        "this out = (if terminal l then fst (Reset ops w2 wd1)
                 else w2\<lparr>state := nextState l, action := nextAction l\<rparr>)"
      obtain w' wd' where rs: "Reset ops w2 wd1 = (w', wd')" by (cases "Reset ops w2 wd1") auto
      show ?thesis
        using a(2) buffer_and_flush_frame[OF a(1)] f Reset_frame[OF rs] rs
        by (simp add: append_pending_def split: if_splits)
    qed
  qed
qed

lemma Step_totalSteps:
  assumes "Step ops w r wd = Inr out"
  shows "totalSteps (refs out) = (if deterministic w then totalSteps r else totalSteps r + 1)"
proof -
  obtain w1 l wd1 where i: "interact ops w r wd = (w1, l, wd1)" by (cases "interact ops w r wd") auto
  show ?thesis
  proof (cases "deterministic w")
    case True
    then show ?thesis using assms by (auto simp: Step_deterministic[OF True i] split: if_splits)
  next
    case False
    then have t: "train ops w1 l r wd1 = Inr out" using assms i by (simp add: Step_stochastic)
    show ?thesis
    proof (rule train_Inr[OF t])
      fix w2 r2 buffered r3 synced
      assume a: "buffer_and_flush ops w1 l r = Inr (w2, r2, buffered)"
        "sync_target w2 r2 = Inr (r3, synced)"
        "refs out = (if terminal l then r3\<lparr>policy := Anneal ops (policy r3), totalReward := episodeReturn w2\<rparr>
                 else r3\<lparr>policy := Anneal ops (policy r3)\<rparr>)"
      show ?thesis
        using False a(3) buffer_and_flush_frame(9)[OF a(1)] sync_target_frame(2)[OF a(2)]
        by (simp split: if_splits)
    qed
  qed
qed

lemma run_append:
  "run ops (xs @ ys) s = (case run ops xs s of Inl e \<Rightarrow> Inl e | Inr s' \<Rightarrow> run ops ys s')"
  by (induction xs arbitrary: s) (auto split: sum.splits)

lemma run_flags:
  assumes "run ops sched s = Inr s'"
  shows "length (workers s') = length (workers s) \<and>
         (\<forall>i. deterministic (workers s' ! i) = deterministic (workers s ! i)) \<and>
         (\<forall>i. config (workers s' ! i) = config (workers s ! i))"
  using assms
proof (induction sched arbitrary: s)
  case Nil
  then show ?case by simp
next
  case (Cons i sched)
  from Cons.prems have len: "i < length (workers s)" by (auto split: if_splits)
  from Cons.prems len obtain out where
    st: "Step ops (workers s ! i) (common s) (outside s) = Inr out" and
    rest: "run ops sched \<lparr>workers = (workers s)[i := this out], common = refs out,
                               outside = world out\<rparr> = Inr s'"
    by (auto split: sum.splits)
  note fr = Step_frame[OF st]
  have "\<And>j. deterministic ((workers s)[i := this out] ! j) = deterministic (workers s ! j)"
       "\<And>j. config ((workers s)[i := this out] ! j) = config (workers s ! j)"
    using fr len by (auto simp: nth_list_update)
  then show ?case using Cons.IH[OF rest] by simp
qed

lemma stochastic_calls_cong:
  "(\<forall>i. deterministic (ws' ! i) = deterministic (ws ! i)) \<Longrightarrow>
   stochastic_calls ws' sched = stochastic_calls ws sched"
  by (simp add: stochastic_calls_def)

lemma run_totalSteps:
  assumes "run ops sched s = Inr s'"
  shows "totalSteps (common s') = totalSteps (common s) + of_nat (stochastic_calls (workers s) sched)"
  using assms
proof (induction sched arbitrary: s)
  case Nil
  then show ?case by (simp add: stochastic_calls_def)
next
  case (Cons i sched)
  from Cons.prems have len: "i < length (workers s)" by (auto split: if_splits)
  from Cons.prems len obtain out where
    st: "Step ops (workers s ! i) (common s) (outside s) = Inr out" and
    rest: "run ops sched \<lparr>workers = (workers s)[i := this out], common = refs out,
                               outside = world out\<rparr> = Inr s'"
    by (auto split: sum.splits)
  have same: "stochastic_calls ((workers s)[i := this out]) sched = stochastic_calls (workers s) sched"
    using Step_frame(2)[OF st] len by (intro stochastic_calls_cong) (auto simp: nth_list_update)
  show ?case
    using Cons.IH[OF rest] Step_totalSteps[OF st] same
    by (simp add: stochastic_calls_def)
qed

section \<open>The end of an episode\<close>

lemma Step_terminal_iff:
  assumes "Step ops w r wd = Inr out"
  shows "ret out =
     ((case env_response ops w r wd of ((rew, nxt), wd') \<Rightarrow> IsTerminal ops nxt wd') \<or>
      StepLimit (config w) \<le> steps w + 1)"
proof -
  obtain w1 l wd1 where i: "interact ops w r wd = (w1, l, wd1)"
    by (cases "interact ops w r wd") auto
  obtain rew nxt wd2 where e: "env_response ops w r wd = ((rew, nxt), wd2)"
    by (cases "env_response ops w r wd") auto
  show ?thesis
    using Step_ret[OF assms i] interact_terminal(1)[OF i e] e by simp
qed

lemma Step_episode_fields:
  assumes "Step ops w r wd = Inr out"
  shows "steps (this out) = (if ret out then 0 else steps w + 1)"
    "pendingIndex (this out) =
       (if ret out then 0
        else if deterministic w then pendingIndex w
        else if UpdateInterval (config w) \<le> pendingIndex w + 1 then 0
        else pendingIndex w + 1)"
proof -
  obtain w1 l wd1 where i: "interact ops w r wd = (w1, l, wd1)"
    by (cases "interact ops w r wd") auto
  note f = interact_frame[OF i]
  note rt = Step_ret[OF assms i]
  have "steps (this out) = (if ret out then 0 else steps w + 1) \<and>
    pendingIndex (this out) =
       (if ret out then 0
        else if deterministic w then pendingIndex w
        else if UpdateInterval (config w) \<le> pendingIndex w + 1 then 0
        else pendingIndex w + 1)"
  proof (cases "deterministic w")
    case True
    obtain w' wd' where rs: "Reset ops w1 wd1 = (w', wd')" by (cases "Reset ops w1 wd1") auto
    show ?thesis
      using assms f Reset_frame[OF rs] rs True
      by (auto simp: Step_deterministic[OF True i] split: if_splits)
  next
    case False
    then have t: "train ops w1 l r wd1 = Inr out" using assms i by (simp add: Step_stochastic)
    show ?thesis
    proof (rule train_Inr[OF t])
      fix w2 r2 buffered r3 synced
      assume a: "buffer_and_flush ops w1 l r = Inr (w2, r2, buffered)"
        "this out = (if terminal l then fst (Reset ops w2 wd1)
                 else w2\<lparr>state := nextState l, action := nextAction l\<rparr>)"
        "ret out = terminal l"
      obtain w' wd' where rs: "Reset ops w2 wd1 = (w', wd')" by (cases "Reset ops w2 wd1") auto
      show ?thesis
        using a(2,3) buffer_and_flush_frame[OF a(1)] f Reset_frame[OF rs] rs False
        by (simp split: if_splits)
    qed
  qed
  then show "steps (this out) = (if ret out then 0 else steps w + 1)"
    "pendingIndex (this out) =
       (if ret out then 0
        else if deterministic w then pendingIndex w
        else if UpdateInterval (config w) \<le> pendingIndex w + 1 then 0
        else pendingIndex w + 1)" by simp_all
qed

lemma word_succ_below:
  fixes a b :: size_t
  assumes "a < b"
  shows "unat (a + 1) = unat a + 1"
  using assms by unat_arith

lemma episode_calls_bound:
  assumes "episode_calls ops w ins = Inr (n, ended)" "steps w < StepLimit (config w)"
  shows "unat (steps w) + n \<le> unat (StepLimit (config w)) \<and>
         (ended \<or> unat (steps w) + n < unat (StepLimit (config w)))"
  using assms
proof (induction ins arbitrary: w n ended)
  case Nil
  then show ?case by (simp add: word_less_nat_alt)
next
  case (Cons a ins)
  obtain r wd where a: "a = (r, wd)" by (cases a) auto
  from Cons.prems(1) a obtain out where st: "Step ops w r wd = Inr out"
    by (auto split: sum.splits)
  have suc: "unat (steps w + 1) = unat (steps w) + 1"
    using Cons.prems(2) by (rule word_succ_below)
  show ?case
  proof (cases "ret out")
    case True
    then have "n = 1" "ended" using Cons.prems(1) a st by simp_all
    then show ?thesis using Cons.prems(2) by (simp add: word_less_nat_alt)
  next
    case False
    then obtain n' where rest: "episode_calls ops (this out) ins = Inr (n', ended)" and n: "n = Suc n'"
      using Cons.prems(1) a st by (auto split: sum.splits)
    have "\<not> StepLimit (config w) \<le> steps w + 1"
      using Step_terminal_iff[OF st] False by simp
    then have lt: "steps (this out) < StepLimit (config (this out))"
      using Step_episode_fields(1)[OF st] False Step_frame(1)[OF st] by simp
    from Cons.IH[OF rest lt] show ?thesis
      using Step_episode_fields(1)[OF st] False Step_frame(1)[OF st] suc n by simp
  qed
qed

section \<open>The buffer\<close>

lemma flush_update:
  assumes "flush ops term w r = Inr (w', r', evs)"
  shows "\<exists>G. evs = [EvUpdate G, EvRefresh] \<and>
           learningNetwork r' =
             set_Parameters ops (learningNetwork r)
               (fst (Update ops (updater w) (Parameters ops (learningNetwork r))
                      (StepSize (config w)) G)) \<and>
           updater w' =
             snd (Update ops (updater w) (Parameters ops (learningNetwork r))
                      (StepSize (config w)) G)"
  using assms by (auto simp: flush_def Let_def split: prod.splits sum.splits)

lemma buffer_and_flush_trace:
  assumes "buffer_and_flush ops w l r = Inr (w2, r2, evs)"
  shows "if terminal l \<or> UpdateInterval (config w) \<le> pendingIndex w + 1
         then \<exists>wf rf flushed.
                flush ops (terminal l) (append_pending w l) (r\<lparr>totalSteps := totalSteps r + 1\<rparr>)
                  = Inr (wf, rf, flushed) \<and>
                w2 = wf \<and> r2 = rf \<and> evs = [EvCount, EvAppend (unat (pendingIndex w))] @ flushed
         else w2 = append_pending w l \<and> r2 = r\<lparr>totalSteps := totalSteps r + 1\<rparr> \<and>
              evs = [EvCount, EvAppend (unat (pendingIndex w))]"
  using assms unfolding buffer_and_flush_def
  by (auto simp: Let_def append_pending_def split: prod.splits sum.splits if_splits)

lemma buffer_and_flush_events:
  assumes "buffer_and_flush ops w l r = Inr (w2, r2, evs)"
  shows "EvSync \<notin> set evs"
    "(\<exists>G. EvUpdate G \<in> set evs) = (terminal l \<or> UpdateInterval (config w) \<le> pendingIndex w + 1)"
  using buffer_and_flush_trace[OF assms]
  by (auto split: if_splits dest!: flush_frame(13))

text \<open>A call in stochastic mode, taken apart.\<close>

lemma Step_stochastic_Inr:
  assumes "Step ops w r wd = Inr out" "\<not> deterministic w" "interact ops w r wd = (w1, l, wd1)"
  obtains w2 r2 buffered r3 synced where
    "buffer_and_flush ops w1 l r = Inr (w2, r2, buffered)"
    "sync_target w2 r2 = Inr (r3, synced)"
    "ret out = terminal l"
    "refs out = (if terminal l then r3\<lparr>policy := Anneal ops (policy r3), totalReward := episodeReturn w2\<rparr>
                 else r3\<lparr>policy := Anneal ops (policy r3)\<rparr>)"
    "trace out = buffered @ synced @ [EvAnneal] @
        (if terminal l then [EvReport (episodeReturn w2), EvReset] else [])"
    "this out = (if terminal l then fst (Reset ops w2 wd1)
                 else w2\<lparr>state := nextState l, action := nextAction l\<rparr>)"
    "world out = (if terminal l then snd (Reset ops w2 wd1) else wd1)"
proof -
  have "train ops w1 l r wd1 = Inr out" using assms by (simp add: Step_stochastic)
  then show ?thesis by (rule train_Inr) (rule that)
qed

lemma Step_pending:
  assumes "Step ops w r wd = Inr out" "\<not> deterministic w" "interact ops w r wd = (w1, l, wd1)"
  shows "pending (this out) = pending (append_pending w1 l)"
    "(\<exists>G. EvUpdate G \<in> set (trace out)) =
       (ret out \<or> UpdateInterval (config w) \<le> pendingIndex w + 1)"
    "EvAppend (unat (pendingIndex w)) \<in> set (trace out)"
proof -
  note f = interact_frame[OF assms(3)]
  from assms obtain w2 r2 buffered r3 synced where a:
    "buffer_and_flush ops w1 l r = Inr (w2, r2, buffered)"
    "sync_target w2 r2 = Inr (r3, synced)"
    "ret out = terminal l"
    "trace out = buffered @ synced @ [EvAnneal] @
        (if terminal l then [EvReport (episodeReturn w2), EvReset] else [])"
    "this out = (if terminal l then fst (Reset ops w2 wd1)
                 else w2\<lparr>state := nextState l, action := nextAction l\<rparr>)"
    by (rule Step_stochastic_Inr)
  obtain w' wd' where rs: "Reset ops w2 wd1 = (w', wd')" by (cases "Reset ops w2 wd1") auto
  show "pending (this out) = pending (append_pending w1 l)"
    using a(5) buffer_and_flush_frame(8)[OF a(1)] Reset_frame(6)[OF rs] rs by (simp split: if_splits)
  have "(\<exists>G. EvUpdate G \<in> set (trace out)) = (\<exists>G. EvUpdate G \<in> set buffered)"
    using a(4) sync_target_frame(6)[OF a(2)] by auto
  then show "(\<exists>G. EvUpdate G \<in> set (trace out)) =
       (ret out \<or> UpdateInterval (config w) \<le> pendingIndex w + 1)"
    using buffer_and_flush_events(2)[OF a(1)] a(3) f by simp
  show "EvAppend (unat (pendingIndex w)) \<in> set (trace out)"
    using buffer_and_flush_trace[OF a(1)] a(4) f by (auto split: if_splits)
qed

lemma Step_pendingIndex_inv:
  assumes "Step ops w r wd = Inr out" "pendingIndex w < UpdateInterval (config w)"
  shows "pendingIndex (this out) < UpdateInterval (config (this out))"
proof -
  have "0 < UpdateInterval (config w)"
    using assms(2) by (metis word_gt_0 word_not_simps(1))
  moreover have "\<not> UpdateInterval (config w) \<le> pendingIndex w + 1
      \<Longrightarrow> pendingIndex w + 1 < UpdateInterval (config w)"
    by simp
  ultimately show ?thesis
    using Step_episode_fields(2)[OF assms(1)] Step_frame(1)[OF assms(1)] assms(2)
    by (simp split: if_splits)
qed

lemma run_pendingIndex_inv:
  assumes "run ops sched s = Inr s'"
    "\<forall>w\<in>set (workers s). pendingIndex w < UpdateInterval (config w)"
  shows "\<forall>w\<in>set (workers s'). pendingIndex w < UpdateInterval (config w)"
  using assms
proof (induction sched arbitrary: s)
  case Nil
  then show ?case by simp
next
  case (Cons i sched)
  from Cons.prems have len: "i < length (workers s)" by (auto split: if_splits)
  from Cons.prems len obtain out where
    st: "Step ops (workers s ! i) (common s) (outside s) = Inr out" and
    rest: "run ops sched \<lparr>workers = (workers s)[i := this out], common = refs out,
                               outside = world out\<rparr> = Inr s'"
    by (auto split: sum.splits)
  have "pendingIndex (this out) < UpdateInterval (config (this out))"
    using Step_pendingIndex_inv[OF st] Cons.prems(2) len by simp
  then have "\<forall>w\<in>set ((workers s)[i := this out]). pendingIndex w < UpdateInterval (config w)"
    using Cons.prems(2) by (metis insert_iff set_update_subset_insert subsetD)
  then show ?case using Cons.IH[OF rest] by simp
qed

lemma Step_append:
  assumes "Step ops w r wd = Inr out" "\<not> deterministic w" "interact ops w r wd = (w1, l, wd1)"
  shows "pending (this out) =
           (pending w)[unat (pendingIndex w) :=
              \<lparr>t_state = state w, t_action = action w1, t_reward = reward l,
               t_nextState = nextState l, t_nextAction = nextAction l\<rparr>]"
  using Step_pending(1)[OF assms] interact_frame[OF assms(3)]
  by (simp add: append_pending_def)

lemma transition_gradient_error:
  "transition_gradient ops cfg term n i tr net tgt = Inl e \<Longrightarrow> e = IndexOutOfRange"
  by (auto simp: transition_gradient_def target_value_def elem_at_def elem_put_def Let_def
      split: prod.splits sum.splits if_splits)

lemma gradient_loop_error:
  "gradient_loop ops cfg tm pend i acc net tgt = Inl e \<Longrightarrow> e \<noteq> BufferOverrun"
proof (induction ops cfg tm pend i acc net tgt rule: gradient_loop.induct)
  case (1 ops cfg tm pend i acc net tgt)
  note unfold = gradient_loop.simps[of ops cfg tm pend i acc net tgt]
  show ?case
  proof (cases "i < length pend")
    case False
    then show ?thesis using "1.prems" unfold by simp
  next
    case True
    show ?thesis
    proof (cases "transition_gradient ops cfg tm (length pend) i (pend ! i) net tgt")
      case (Inl e')
      then have "e = IndexOutOfRange"
        using "1.prems" True unfold transition_gradient_error[OF Inl] by simp
      then show ?thesis by simp
    next
      case (Inr res)
      obtain g net' tgt' where res: "res = (g, net', tgt')" by (cases res) auto
      note tg = Inr[unfolded res]
      show ?thesis
      proof (cases "mat_add acc g")
        case (Inl e')
        then have "e' = IncompatibleDimensions" by (simp add: mat_add_def split: if_splits)
        then show ?thesis using "1.prems" True unfold tg Inl by simp
      next
        case (Inr acc')
        have "gradient_loop ops cfg tm pend (i + 1) acc' net' tgt' = Inl e"
          using "1.prems" True unfold tg Inr by simp
        then show ?thesis by (rule "1.IH"[OF True tg refl refl Inr])
      qed
    qed
  qed
qed

lemma flush_error: "flush ops term w r = Inl e \<Longrightarrow> e \<noteq> BufferOverrun"
  by (auto simp: flush_def Let_def split: sum.splits prod.splits dest: gradient_loop_error)

lemma buffer_and_flush_overrun:
  "buffer_and_flush ops w l r = Inl BufferOverrun \<Longrightarrow> length (pending w) \<le> unat (pendingIndex w)"
  by (auto simp: buffer_and_flush_def Let_def split: sum.splits prod.splits if_splits
      dest: flush_error)

lemma Step_overrun:
  assumes "Step ops w r wd = Inl BufferOverrun"
  shows "\<not> deterministic w \<and> length (pending w) \<le> unat (pendingIndex w)"
proof -
  obtain w1 l wd1 where i: "interact ops w r wd = (w1, l, wd1)"
    by (cases "interact ops w r wd") auto
  note f = interact_frame[OF i]
  have nd: "\<not> deterministic w"
    using assms by (auto simp: Step_deterministic[OF _ i] split: if_splits)
  then have "train ops w1 l r wd1 = Inl BufferOverrun" using assms i by (simp add: Step_stochastic)
  then have "buffer_and_flush ops w1 l r = Inl BufferOverrun"
    by (auto simp: train_def sync_target_def Let_def split: sum.splits prod.splits if_splits)
  then show ?thesis using buffer_and_flush_overrun f nd by fastforce
qed

lemma run_no_overrun:
  assumes "\<forall>w\<in>set (workers s). pendingIndex w < UpdateInterval (config w) \<and>
              unat (UpdateInterval (config w)) \<le> length (pending w)"
  shows "run ops sched s \<noteq> Inl BufferOverrun"
  using assms
proof (induction sched arbitrary: s)
  case Nil
  then show ?case by simp
next
  case (Cons i sched)
  show ?case
  proof (cases "i < length (workers s)")
    case False
    then show ?thesis by simp
  next
    case True
    then have inv: "pendingIndex (workers s ! i) < UpdateInterval (config (workers s ! i))"
      "unat (UpdateInterval (config (workers s ! i))) \<le> length (pending (workers s ! i))"
      using Cons.prems by simp_all
    then have inb: "unat (pendingIndex (workers s ! i)) < length (pending (workers s ! i))"
      by (simp add: word_less_nat_alt)
    show ?thesis
    proof (cases "Step ops (workers s ! i) (common s) (outside s)")
      case (Inl e)
      then have "e \<noteq> BufferOverrun" using Step_overrun[of ops "workers s ! i"] inb by auto
      then show ?thesis using Inl True by simp
    next
      case (Inr out)
      have "pendingIndex (this out) < UpdateInterval (config (this out)) \<and>
            unat (UpdateInterval (config (this out))) \<le> length (pending (this out))"
        using Step_pendingIndex_inv[OF Inr inv(1)] Step_frame(1,3)[OF Inr] inv(2) by simp
      then have "\<forall>w\<in>set ((workers s)[i := this out]).
          pendingIndex w < UpdateInterval (config w) \<and>
          unat (UpdateInterval (config w)) \<le> length (pending w)"
        using Cons.prems by (metis insert_iff set_update_subset_insert subsetD)
      then show ?thesis using Cons.IH Inr True by simp
    qed
  qed
qed

section \<open>The target network\<close>

lemma Step_sync:
  assumes "Step ops w r wd = Inr out" "\<not> deterministic w"
  shows "TargetNetworkSyncInterval (config w) \<noteq> 0"
    "(EvSync \<in> set (trace out)) = ((totalSteps r + 1) mod TargetNetworkSyncInterval (config w) = 0)"
    "(totalSteps r + 1) mod TargetNetworkSyncInterval (config w) = 0 \<Longrightarrow>
       targetNetwork (refs out) = learningNetwork (refs out)"
proof -
  obtain w1 l wd1 where i: "interact ops w r wd = (w1, l, wd1)"
    by (cases "interact ops w r wd") auto
  note f = interact_frame[OF i]
  from assms i obtain w2 r2 buffered r3 synced where a:
    "buffer_and_flush ops w1 l r = Inr (w2, r2, buffered)"
    "sync_target w2 r2 = Inr (r3, synced)"
    "refs out = (if terminal l then r3\<lparr>policy := Anneal ops (policy r3), totalReward := episodeReturn w2\<rparr>
                 else r3\<lparr>policy := Anneal ops (policy r3)\<rparr>)"
    "trace out = buffered @ synced @ [EvAnneal] @
        (if terminal l then [EvReport (episodeReturn w2), EvReset] else [])"
    by (rule Step_stochastic_Inr)
  note b = buffer_and_flush_frame[OF a(1)]
  note s = sync_target_frame[OF a(2)]
  have cfg: "config w2 = config w" and cnt: "totalSteps r2 = totalSteps r + 1"
    using b(2,9) f(1) by simp_all
  show "TargetNetworkSyncInterval (config w) \<noteq> 0" using s(1) cfg by simp
  show "(EvSync \<in> set (trace out)) = ((totalSteps r + 1) mod TargetNetworkSyncInterval (config w) = 0)"
    using a(4) s(6) buffer_and_flush_events(1)[OF a(1)] cfg cnt by auto
  show "targetNetwork (refs out) = learningNetwork (refs out)"
    if "(totalSteps r + 1) mod TargetNetworkSyncInterval (config w) = 0"
    using that a(3) s(5,7) cfg cnt by (simp split: if_splits)
qed

lemma Step_no_sync:
  assumes "Step ops w r wd = Inr out" "\<not> deterministic w"
    "(totalSteps r + 1) mod TargetNetworkSyncInterval (config w) \<noteq> 0"
    "\<not> ret out" "\<not> UpdateInterval (config w) \<le> pendingIndex w + 1"
  shows "targetNetwork (refs out) = targetNetwork r"
proof -
  obtain w1 l wd1 where i: "interact ops w r wd = (w1, l, wd1)"
    by (cases "interact ops w r wd") auto
  note f = interact_frame[OF i]
  from assms(1,2) i obtain w2 r2 buffered r3 synced where a:
    "buffer_and_flush ops w1 l r = Inr (w2, r2, buffered)"
    "sync_target w2 r2 = Inr (r3, synced)"
    "ret out = terminal l"
    "refs out = (if terminal l then r3\<lparr>policy := Anneal ops (policy r3), totalReward := episodeReturn w2\<rparr>
                 else r3\<lparr>policy := Anneal ops (policy r3)\<rparr>)"
    by (rule Step_stochastic_Inr)
  note b = buffer_and_flush_frame[OF a(1)]
  note s = sync_target_frame[OF a(2)]
  have "r2 = r\<lparr>totalSteps := totalSteps r + 1\<rparr>"
    using buffer_and_flush_trace[OF a(1)] a(3) assms(4,5) f by simp
  then show ?thesis
    using a(3,4) assms(3,4) s(7) b(2) f(1) by simp
qed

lemma Step_deterministic_networks:
  assumes "Step ops w r wd = Inr out" "deterministic w"
  shows "learningNetwork (refs out) = learningNetwork r" "targetNetwork (refs out) = targetNetwork r"
proof -
  obtain w1 l wd1 where i: "interact ops w r wd = (w1, l, wd1)"
    by (cases "interact ops w r wd") auto
  show "learningNetwork (refs out) = learningNetwork r" "targetNetwork (refs out) = targetNetwork r"
    using assms(1) by (auto simp: Step_deterministic[OF assms(2) i] split: if_splits)
qed

lemma stochastic_calls_snoc:
  "stochastic_calls ws (xs @ [i]) = stochastic_calls ws xs + (if deterministic (ws ! i) then 0 else 1)"
  by (simp add: stochastic_calls_def)

lemma run_sync:
  assumes "run ops sched s = Inr s'" "totalSteps (common s) = 0"
    "\<forall>w\<in>set (workers s). TargetNetworkSyncInterval (config w) = N"
    "stochastic_calls (workers s) sched = unat N" "0 < N"
  shows "targetNetwork (common s') = learningNetwork (common s')"
  using assms(1,4)
proof (induction sched arbitrary: s' rule: rev_induct)
  case Nil
  then show ?case using assms(5) by (simp add: stochastic_calls_def unat_eq_zero)
next
  case (snoc i xs)
  from snoc.prems(1) obtain sm where mid: "run ops xs s = Inr sm" and last: "run ops [i] sm = Inr s'"
    by (auto simp: run_append split: sum.splits)
  from last have len: "i < length (workers sm)" by (auto split: if_splits)
  from last len obtain out where
    st: "Step ops (workers sm ! i) (common sm) (outside sm) = Inr out" and
    s': "common s' = refs out"
    by (auto split: sum.splits)
  note fl = run_flags[OF mid]
  have det: "deterministic (workers sm ! i) = deterministic (workers s ! i)"
    and cfg: "config (workers sm ! i) = config (workers s ! i)" and len': "i < length (workers s)"
    using fl len by simp_all
  have N: "TargetNetworkSyncInterval (config (workers sm ! i)) = N"
    using assms(3) cfg len' by simp
  show ?case
  proof (cases "deterministic (workers s ! i)")
    case True
    then have "stochastic_calls (workers s) xs = unat N"
      using snoc.prems(2) by (simp add: stochastic_calls_snoc)
    from snoc.IH[OF mid this] show ?thesis
      using Step_deterministic_networks[OF st] True det s' by simp
  next
    case False
    then have "Suc (stochastic_calls (workers s) xs) = unat N"
      using snoc.prems(2) by (simp add: stochastic_calls_snoc)
    then have "of_nat (Suc (stochastic_calls (workers s) xs)) = (of_nat (unat N) :: size_t)"
      by simp
    then have "totalSteps (common sm) + 1 = N"
      using run_totalSteps[OF mid] assms(2) by (simp add: add.commute)
    then have "(totalSteps (common sm) + 1) mod TargetNetworkSyncInterval (config (workers sm ! i)) = 0"
      using N by simp
    from Step_sync(3)[OF st _ this] show ?thesis using False det s' by simp
  qed
qed

lemma Step_flush_then_sync:
  assumes "Step ops w r wd = Inr out" "\<not> deterministic w" "interact ops w r wd = (w1, l, wd1)"
    "terminal l \<or> UpdateInterval (config w) \<le> pendingIndex w + 1"
    "(totalSteps r + 1) mod TargetNetworkSyncInterval (config w) = 0"
  shows "\<exists>G. trace out =
            [EvCount, EvAppend (unat (pendingIndex w)), EvUpdate G, EvRefresh, EvSync, EvAnneal] @
            (if terminal l then [EvReport (episodeReturn w1), EvReset] else []) \<and>
          learningNetwork (refs out) =
            set_Parameters ops (learningNetwork r)
              (fst (Update ops (updater w) (Parameters ops (learningNetwork r))
                     (StepSize (config w)) G)) \<and>
          targetNetwork (refs out) = learningNetwork (refs out) \<and>
          network (this out) = learningNetwork (refs out) \<and>
          policy (refs out) = Anneal ops (policy r)"
proof -
  note f = interact_frame[OF assms(3)]
  from assms(1-3) obtain w2 r2 buffered r3 synced where a:
    "buffer_and_flush ops w1 l r = Inr (w2, r2, buffered)"
    "sync_target w2 r2 = Inr (r3, synced)"
    "refs out = (if terminal l then r3\<lparr>policy := Anneal ops (policy r3), totalReward := episodeReturn w2\<rparr>
                 else r3\<lparr>policy := Anneal ops (policy r3)\<rparr>)"
    "trace out = buffered @ synced @ [EvAnneal] @
        (if terminal l then [EvReport (episodeReturn w2), EvReset] else [])"
    "this out = (if terminal l then fst (Reset ops w2 wd1)
                 else w2\<lparr>state := nextState l, action := nextAction l\<rparr>)"
    by (rule Step_stochastic_Inr)
  note b = buffer_and_flush_frame[OF a(1)]
  note s = sync_target_frame[OF a(2)]
  from buffer_and_flush_trace[OF a(1)] assms(4) f obtain flushed where
    fl: "flush ops (terminal l) (append_pending w1 l) (r\<lparr>totalSteps := totalSteps r + 1\<rparr>)
           = Inr (w2, r2, flushed)"
    and ev: "buffered = [EvCount, EvAppend (unat (pendingIndex w))] @ flushed"
    by auto
  from flush_update[OF fl] obtain G where G: "flushed = [EvUpdate G, EvRefresh]"
    "learningNetwork r2 =
       set_Parameters ops (learningNetwork r)
         (fst (Update ops (updater w) (Parameters ops (learningNetwork r)) (StepSize (config w)) G))"
    using f by (auto simp: append_pending_def)
  have cfg: "config w2 = config w" and cnt: "totalSteps r2 = totalSteps r + 1"
    using b(2,9) f(1) by simp_all
  obtain w' wd' where rs: "Reset ops w2 wd1 = (w', wd')" by (cases "Reset ops w2 wd1") auto
  have "trace out =
            [EvCount, EvAppend (unat (pendingIndex w)), EvUpdate G, EvRefresh, EvSync, EvAnneal] @
            (if terminal l then [EvReport (episodeReturn w1), EvReset] else [])"
    using a(4) ev G(1) s(6) cfg cnt assms(5) b(5) by simp
  moreover have "learningNetwork (refs out) =
            set_Parameters ops (learningNetwork r)
              (fst (Update ops (updater w) (Parameters ops (learningNetwork r))
                     (StepSize (config w)) G))"
    using a(3) s(5) G(2) by (simp split: if_splits)
  moreover have "targetNetwork (refs out) = learningNetwork (refs out)"
    using Step_sync(3)[OF assms(1,2,5)] .
  moreover have "network (this out) = learningNetwork (refs out)"
    using a(3,5) s(5) flush_frame(9)[OF fl] Reset_frame(5)[OF rs] rs by (simp split: if_splits)
  moreover have "policy (refs out) = Anneal ops (policy r)"
    using a(3) s(3) b(10) by (simp split: if_splits)
  ultimately show ?thesis by blast
qed

text \<open>A call in stochastic mode is its two parts, one after the other.\<close>

lemma buffer_and_flush_counted:
  "buffer_and_flush ops w l r =
     (case buffer_counted ops w l (r\<lparr>totalSteps := totalSteps r + 1\<rparr>) of
        Inl e \<Rightarrow> Inl e
      | Inr (w2, r2, evs) \<Rightarrow> Inr (w2, r2, EvCount # evs))"
  by (simp add: buffer_and_flush_def buffer_counted_def Let_def split: sum.splits prod.splits)

lemma train_in_two_parts:
  "train ops w l r wd =
     (case finish_call ops w l (r\<lparr>totalSteps := totalSteps r + 1\<rparr>) wd of
        Inl e \<Rightarrow> Inl e
      | Inr out \<Rightarrow> Inr (out\<lparr>trace := EvCount # trace out\<rparr>))"
  by (simp add: train_def finish_call_def buffer_and_flush_counted Let_def
      split: sum.splits prod.splits)

lemma Step_in_two_parts:
  assumes "\<not> deterministic w"
  shows "Step ops w r wd =
     (let (w1, l, r1, wd1) = begin_call ops w r wd
      in case finish_call ops w1 l r1 wd1 of
           Inl e \<Rightarrow> Inl e
         | Inr out \<Rightarrow> Inr (out\<lparr>trace := EvCount # trace out\<rparr>))"
proof -
  obtain w1 l wd1 where i: "interact ops w r wd = (w1, l, wd1)"
    by (cases "interact ops w r wd") auto
  show ?thesis
    using Step_stochastic[OF assms i] i by (simp add: begin_call_def train_in_two_parts)
qed

text \<open>The second part of a call copies the learning network into the target network
  exactly when the counter, as the call finds it at line 246, is a multiple of the sync
  interval.\<close>

lemma finish_call_sync:
  assumes "finish_call ops w l r wd = Inr out"
  shows "(EvSync \<in> set (trace out)) = (totalSteps r mod TargetNetworkSyncInterval (config w) = 0)"
proof -
  let ?r = "r\<lparr>totalSteps := totalSteps r - 1\<rparr>"
  have again: "?r\<lparr>totalSteps := totalSteps ?r + 1\<rparr> = r" by simp
  have t: "train ops w l ?r wd = Inr (out\<lparr>trace := EvCount # trace out\<rparr>)"
    using assms by (simp add: train_in_two_parts again)
  from t obtain w2 r2 buffered r3 synced where a:
    "buffer_and_flush ops w l ?r = Inr (w2, r2, buffered)"
    "sync_target w2 r2 = Inr (r3, synced)"
    "trace (out\<lparr>trace := EvCount # trace out\<rparr>) = buffered @ synced @ [EvAnneal] @
        (if terminal l then [EvReport (episodeReturn w2), EvReset] else [])"
    by (rule train_Inr)
  note b = buffer_and_flush_frame[OF a(1)]
  note s = sync_target_frame[OF a(2)]
  have same: "totalSteps r2 = totalSteps r" "config w2 = config w" using b(2,9) by simp_all
  have "EvCount # trace out = buffered @ synced @ [EvAnneal] @
        (if terminal l then [EvReport (episodeReturn w2), EvReset] else [])"
    using a(3) by simp
  then have "set (EvCount # trace out) = set (buffered @ synced @ [EvAnneal] @
        (if terminal l then [EvReport (episodeReturn w2), EvReset] else []))"
    by (rule arg_cong)
  then have "(EvSync \<in> set (trace out)) = (EvSync \<in> set synced)"
    using buffer_and_flush_events(1)[OF a(1)] by auto
  then show ?thesis using s(6) same by simp
qed

text \<open>
  When no other call comes between the two parts, the counter found at line 246 is the
  one this call's increment produced.  Then a call in stochastic mode copies the learning
  network into the target network exactly when the counter after its increment is a
  multiple of the interval; and when the counter starts at 0 and all workers share the
  interval \<open>N > 0\<close>, after any sequence of whole calls with exactly \<open>N\<close> stochastic-mode
  calls the target network equals the learning network.
\<close>

lemma sync_iff_multiple_without_overlap:
  fixes ops :: "('s, 'n, 'p, 'u, 'w) collaborators"
  shows "(\<forall>w r wd out. Step ops w r wd = Inr out \<longrightarrow> \<not> deterministic w \<longrightarrow>
            (EvSync \<in> set (trace out)) =
              ((totalSteps r + 1) mod TargetNetworkSyncInterval (config w) = 0) \<and>
            ((totalSteps r + 1) mod TargetNetworkSyncInterval (config w) = 0 \<longrightarrow>
               targetNetwork (refs out) = learningNetwork (refs out)) \<and>
            ((totalSteps r + 1) mod TargetNetworkSyncInterval (config w) \<noteq> 0 \<longrightarrow>
               \<not> ret out \<longrightarrow> \<not> UpdateInterval (config w) \<le> pendingIndex w + 1 \<longrightarrow>
               targetNetwork (refs out) = targetNetwork r)) \<and>
         (\<forall>sched s s' N. run ops sched s = Inr s' \<longrightarrow> totalSteps (common s) = 0 \<longrightarrow>
            (\<forall>w\<in>set (workers s). TargetNetworkSyncInterval (config w) = N) \<longrightarrow>
            stochastic_calls (workers s) sched = unat N \<longrightarrow> 0 < N \<longrightarrow>
            targetNetwork (common s') = learningNetwork (common s'))"
proof (intro conjI allI impI)
  fix w :: "('s, 'n, 'u) worker" and r :: "('n, 'p) shared" and wd :: 'w
    and out :: "('s, 'n, 'p, 'u, 'w) outcome"
  assume a: "Step ops w r wd = Inr out" "\<not> deterministic w"
  show "(EvSync \<in> set (trace out)) =
          ((totalSteps r + 1) mod TargetNetworkSyncInterval (config w) = 0)"
    using a by (rule Step_sync(2))
  show "targetNetwork (refs out) = learningNetwork (refs out)"
    if "(totalSteps r + 1) mod TargetNetworkSyncInterval (config w) = 0"
    using a that by (rule Step_sync(3))
  show "targetNetwork (refs out) = targetNetwork r"
    if "(totalSteps r + 1) mod TargetNetworkSyncInterval (config w) \<noteq> 0" "\<not> ret out"
      "\<not> UpdateInterval (config w) \<le> pendingIndex w + 1"
    using a that by (rule Step_no_sync)
next
  fix sched and s s' :: "('s, 'n, 'p, 'u, 'w) system" and N
  assume "run ops sched s = Inr s'" "totalSteps (common s) = 0"
    "\<forall>w\<in>set (workers s). TargetNetworkSyncInterval (config w) = N"
    "stochastic_calls (workers s) sched = unat N" "0 < N"
  then show "targetNetwork (common s') = learningNetwork (common s')"
    by (rule run_sync)
qed

section \<open>The accumulated gradient\<close>

lemma mat_add_Inr:
  assumes "mat_add a b = Inr c"
  shows "n_rows b = n_rows a" "n_cols b = n_cols a" "length (mem b) = length (mem a)"
    "n_rows c = n_rows a" "n_cols c = n_cols a" "length (mem c) = length (mem a)"
    "\<And>k. k < length (mem a) \<Longrightarrow> mem c ! k = mem a ! k + mem b ! k"
  using assms by (auto simp: mat_add_def split: if_splits)

lemma gradient_loop_sum:
  assumes "gradient_loop ops cfg tm pend i acc net tgt = Inr (tot, net', tgt')"
  shows "\<exists>gs. transition_gradients ops cfg tm pend i net tgt = Inr gs \<and>
           length gs = length pend - i \<and>
           (\<forall>g\<in>set gs. n_rows g = n_rows acc \<and> n_cols g = n_cols acc \<and>
                         length (mem g) = length (mem acc)) \<and>
           n_rows tot = n_rows acc \<and> n_cols tot = n_cols acc \<and>
           mem tot = map (\<lambda>k. mem acc ! k + (\<Sum>g\<leftarrow>gs. mem g ! k)) [0..<length (mem acc)]"
  using assms
proof (induction ops cfg tm pend i acc net tgt rule: gradient_loop.induct)
  case (1 ops cfg tm pend i acc net tgt)
  note unfold = gradient_loop.simps[of ops cfg tm pend i acc net tgt]
  note unfold' = transition_gradients.simps[of ops cfg tm pend i net tgt]
  show ?case
  proof (cases "i < length pend")
    case False
    then have "tot = acc" using "1.prems" unfold by simp
    then show ?thesis using False unfold' by (simp add: map_nth)
  next
    case True
    from "1.prems" True unfold obtain g net1 tgt1 where
      tg: "transition_gradient ops cfg tm (length pend) i (pend ! i) net tgt = Inr (g, net1, tgt1)"
      by (auto split: sum.splits)
    from "1.prems" True unfold tg obtain acc1 where
      ma: "mat_add acc g = Inr acc1"
      by (auto split: sum.splits)
    have rest: "gradient_loop ops cfg tm pend (i + 1) acc1 net1 tgt1 = Inr (tot, net', tgt')"
      using "1.prems" True unfold tg ma by simp
    note m = mat_add_Inr[OF ma]
    from "1.IH"[OF True tg refl refl ma rest] obtain gs where gs:
      "transition_gradients ops cfg tm pend (i + 1) net1 tgt1 = Inr gs"
      "length gs = length pend - (i + 1)"
      "\<forall>g\<in>set gs. n_rows g = n_rows acc1 \<and> n_cols g = n_cols acc1 \<and>
                         length (mem g) = length (mem acc1)"
      "n_rows tot = n_rows acc1" "n_cols tot = n_cols acc1"
      "mem tot = map (\<lambda>k. mem acc1 ! k + (\<Sum>g\<leftarrow>gs. mem g ! k)) [0..<length (mem acc1)]"
      by (elim exE conjE)
    have c1: "transition_gradients ops cfg tm pend i net tgt = Inr (g # gs)"
      using True unfold' tg gs(1) by simp
    have c2: "length (g # gs) = length pend - i" using gs(2) True by simp
    have c3: "\<forall>h\<in>set (g # gs). n_rows h = n_rows acc \<and> n_cols h = n_cols acc \<and>
                         length (mem h) = length (mem acc)"
      using gs(3) m(1-6) by simp
    have c4: "mem tot =
        map (\<lambda>k. mem acc ! k + (\<Sum>h\<leftarrow>g # gs. mem h ! k)) [0..<length (mem acc)]"
    proof -
      have A: "map (\<lambda>k. mem acc1 ! k + (\<Sum>g\<leftarrow>gs. mem g ! k)) [0..<length (mem acc)] =
            map (\<lambda>k. mem acc ! k + (\<Sum>h\<leftarrow>g # gs. mem h ! k)) [0..<length (mem acc)]"
        by (rule map_cong[OF refl]) (simp add: m(7) add.assoc)
      have B: "mem tot =
          map (\<lambda>k. mem acc1 ! k + (\<Sum>g\<leftarrow>gs. mem g ! k)) [0..<length (mem acc)]"
        by (simp only: gs(6) m(6))
      from B A show ?thesis by (rule trans)
    qed
    have c5: "n_rows tot = n_rows acc" "n_cols tot = n_cols acc" using gs(4,5) m(4,5) by simp_all
    show ?thesis
      by (rule exI[of _ "g # gs"]) (intro conjI c1 c2 c3 c4 c5)
  qed
qed

lemma clamp_bounds: "0 \<le> limit \<Longrightarrow> - limit \<le> clamp limit x \<and> clamp limit x \<le> limit"
  by (simp add: clamp_def)

lemma flush_gradient:
  assumes "flush ops tm w r = Inr (w', r', evs)"
  shows "\<exists>gs. transition_gradients ops (config w) tm (pending w) 0 (network w) (targetNetwork r)
                 = Inr gs \<and>
              length gs = length (pending w) \<and>
              evs = [EvUpdate (transform (clamp (GradientLimit (config w)))
                       (elementwise_sum (n_rows (Parameters ops (learningNetwork r)))
                          (n_cols (Parameters ops (learningNetwork r))) gs)), EvRefresh]"
proof -
  let ?P = "Parameters ops (learningNetwork r)"
  from assms obtain tot net tgt where
    gl: "gradient_loop ops (config w) tm (pending w) 0 (zeros (n_rows ?P) (n_cols ?P))
           (network w) (targetNetwork r) = Inr (tot, net, tgt)"
    and evs: "evs = [EvUpdate (transform (clamp (GradientLimit (config w))) tot), EvRefresh]"
    by (auto simp: flush_def Let_def split: sum.splits prod.splits)
  from gradient_loop_sum[OF gl] obtain gs where gs:
    "transition_gradients ops (config w) tm (pending w) 0 (network w) (targetNetwork r) = Inr gs"
    "length gs = length (pending w)"
    "n_rows tot = n_rows ?P" "n_cols tot = n_cols ?P"
    and raw: "mem tot = map (\<lambda>k. mem (zeros (n_rows ?P) (n_cols ?P)) ! k + (\<Sum>g\<leftarrow>gs. mem g ! k))
                 [0..<length (mem (zeros (n_rows ?P) (n_cols ?P)))]"
    by (auto simp: zeros_def)
  have A: "map (\<lambda>k. mem (zeros (n_rows ?P) (n_cols ?P)) ! k + (\<Sum>g\<leftarrow>gs. mem g ! k))
                 [0..<n_rows ?P * n_cols ?P] =
        map (\<lambda>k. (\<Sum>g\<leftarrow>gs. mem g ! k)) [0..<n_rows ?P * n_cols ?P]"
    by (rule map_cong[OF refl]) (simp add: zeros_def)
  have B: "mem tot =
        map (\<lambda>k. mem (zeros (n_rows ?P) (n_cols ?P)) ! k + (\<Sum>g\<leftarrow>gs. mem g ! k))
          [0..<n_rows ?P * n_cols ?P]"
    using raw by (simp only: zeros_def mat.simps length_replicate)
  from B A have "mem tot = map (\<lambda>k. (\<Sum>g\<leftarrow>gs. mem g ! k)) [0..<n_rows ?P * n_cols ?P]"
    by (rule trans)
  have "tot = elementwise_sum (n_rows ?P) (n_cols ?P) gs"
    using gs(3,4) \<open>mem tot = map (\<lambda>k. (\<Sum>g\<leftarrow>gs. mem g ! k)) [0..<n_rows ?P * n_cols ?P]\<close>
    by (simp add: elementwise_sum_def)
  then show ?thesis using gs(1,2) evs by blast
qed

section \<open>Running the small instance\<close>

lemmas toy_unfold = toy_def toy_config_def toy_worker_def toy_shared_def blank_def
  toy_transition_def toy_full_def toy_system_def toy_mid_worker_def toy_mid_shared_def
  toy_out_go_def toy_out_end_def toy_out_sync_def toy_eval_worker_def toy_system_end_def
  toy_eval_go_def toy_eval_end_def
  Step_def interact_def first_action_def env_response_def train_def buffer_and_flush_def
  append_pending_def sync_target_def flush_def transition_gradient_def target_value_def
  Reset_def base_Reset_def zeros_def mat_add_def transform_def clamp_def elem_at_def
  elem_put_def Let_def gradient_loop.simps transition_gradients.simps word_le_nat_alt
  begin_call_def finish_call_def buffer_counted_def toy_pair_def toy_counted_def
  toy_counted_locals_def toy_out_raced_def toy_pair_raced_def

lemma toy_Step_go: "Step toy (toy_worker False 0) toy_shared 0 = Inr toy_out_go"
  by (simp add: toy_unfold)

lemma toy_Step_end: "Step toy (toy_worker False 2) toy_shared 0 = Inr toy_out_end"
  by (simp add: toy_unfold)

lemma toy_Step_sync: "Step toy toy_mid_worker toy_mid_shared 2 = Inr toy_out_sync"
  by (simp add: toy_unfold)

lemma toy_Step_eval_go: "Step toy (toy_worker True 0) toy_shared 0 = Inr toy_eval_go"
  by (simp add: toy_unfold)

lemma toy_Step_eval_end: "Step toy (toy_worker True 2) toy_shared 0 = Inr toy_eval_end"
  by (simp add: toy_unfold)

lemma toy_Step_eval_limit:
  "Step toy ((toy_worker True 0)\<lparr>steps := 9\<rparr>) toy_shared 0 = Inr toy_eval_end"
  by (simp add: toy_unfold)

lemma toy_run: "run toy [0, 1, 0] toy_system = Inr toy_system_end"
  by (simp add: toy_unfold)

lemma toy_flush:
  "flush toy False toy_full toy_shared =
     Inr (toy_full\<lparr>network := [1, 5 / 2], pendingIndex := 0\<rparr>,
          toy_shared\<lparr>learningNetwork := [1, 5 / 2]\<rparr>,
          [EvUpdate \<lparr>n_rows = 2, n_cols = 1, mem = [0, - 1]\<rparr>, EvRefresh])"
  by (simp add: toy_unfold)

lemma toy_gradients_full:
  "transition_gradients toy toy_config False (pending toy_full) 0 [1, 2] [1, 2] =
     Inr [\<lparr>n_rows = 2, n_cols = 1, mem = [0, - (4 / 5)]\<rparr>,
          \<lparr>n_rows = 2, n_cols = 1, mem = [0, - (4 / 5)]\<rparr>,
          \<lparr>n_rows = 2, n_cols = 1, mem = [0, - (4 / 5)]\<rparr>]"
  by (simp add: toy_unfold)

lemma toy_interact_go:
  "interact toy (toy_worker False 0) toy_shared 0 =
     ((toy_worker False 0)\<lparr>action := 1, episodeReturn := 1, steps := 1\<rparr>,
      \<lparr>reward = 1, nextState = 1, nextAction = 1, terminal = False\<rparr>, 1)"
  by (simp add: toy_unfold)

lemma toy_interact_eval_go:
  "interact toy (toy_worker True 0) toy_shared 0 =
     ((toy_worker True 0)\<lparr>action := 1, episodeReturn := 1, steps := 1\<rparr>,
      \<lparr>reward = 1, nextState = 1, nextAction = 1, terminal = False\<rparr>, 1)"
  by (simp add: toy_unfold)

lemma toy_interact_eval_end:
  "interact toy (toy_worker True 2) toy_shared 0 =
     ((toy_worker True 2)\<lparr>action := 1, episodeReturn := 1, steps := 1\<rparr>,
      \<lparr>reward = 1, nextState = 3, nextAction = 1, terminal = True\<rparr>, 1)"
  by (simp add: toy_unfold)

lemma toy_interact_sync:
  "interact toy toy_mid_worker toy_mid_shared 2 =
     (toy_mid_worker\<lparr>episodeReturn := 2, steps := 2\<rparr>,
      \<lparr>reward = 1, nextState = 3, nextAction = 1, terminal = True\<rparr>, 3)"
  by (simp add: toy_unfold)

lemma sync_iff_multiple_without_overlap_example:
  "Step toy toy_mid_worker toy_mid_shared 2 = Inr toy_out_sync \<and>
   (totalSteps toy_mid_shared + 1) mod TargetNetworkSyncInterval toy_config = 0 \<and>
   EvSync \<in> set (trace toy_out_sync) \<and>
   targetNetwork (refs toy_out_sync) = [1 / 2, 5 / 2] \<and>
   Step toy (toy_worker False 0) toy_shared 0 = Inr toy_out_go \<and>
   (totalSteps toy_shared + 1) mod TargetNetworkSyncInterval toy_config = 1 \<and>
   EvSync \<notin> set (trace toy_out_go) \<and>
   targetNetwork (refs toy_out_go) = targetNetwork toy_shared \<and>
   run toy [0, 1, 0] toy_system = Inr toy_system_end \<and>
   stochastic_calls (workers toy_system) [0, 1, 0] = unat (TargetNetworkSyncInterval toy_config) \<and>
   targetNetwork (common toy_system_end) = learningNetwork (common toy_system_end)"
proof -
  note c = sync_iff_multiple_without_overlap[of toy]
  have nd: "\<not> deterministic toy_mid_worker" "\<not> deterministic (toy_worker False 0)"
    by (simp_all add: toy_mid_worker_def toy_worker_def)
  note one = c[THEN conjunct1, rule_format, OF toy_Step_sync nd(1)]
  note two = c[THEN conjunct1, rule_format, OF toy_Step_go nd(2)]
  have N: "\<forall>w\<in>set (workers toy_system). TargetNetworkSyncInterval (config w) = 2"
    by (simp add: toy_system_def toy_worker_def toy_config_def)
  have k: "stochastic_calls (workers toy_system) [0, 1, 0] = unat (2 :: size_t)"
    by (simp add: stochastic_calls_def toy_system_def toy_worker_def)
  have z: "totalSteps (common toy_system) = 0" by (simp add: toy_system_def toy_shared_def)
  have "targetNetwork (common toy_system_end) = learningNetwork (common toy_system_end)"
    using c[THEN conjunct2, THEN spec, THEN spec, THEN spec, THEN spec, THEN mp, THEN mp, THEN mp,
        THEN mp, THEN mp, OF toy_run z N k] by simp
  then show ?thesis
    using one two toy_Step_sync toy_Step_go toy_run k
    by (simp add: toy_mid_worker_def toy_mid_shared_def toy_worker_def toy_shared_def toy_config_def
        toy_out_sync_def toy_out_go_def)
qed

section \<open>The claims\<close>

text \<open>
  C1 (the code departs from the claim).  The claim: a flush processes exactly the
  \<open>pendingIndex\<close> buffered transitions, in insertion order, and no others.  The loop of
  line 194 runs over the whole of \<open>pending\<close> instead.  A training worker with a buffer
  of three starts an episode in state 2; its first step ends the episode, so one
  transition is buffered when the flush runs.  The flush accumulates three gradients,
  and the first component of the gradient handed to the optimizer comes from the two
  entries that were never written.
\<close>

theorem terminal_flush_reads_whole_buffer:
  "Step toy (toy_worker False 2) toy_shared 0 = Inr toy_out_end \<and>
   pending (this toy_out_end) = [toy_transition 2, blank, blank] \<and>
   transition_gradients toy toy_config True [toy_transition 2, blank, blank] 0 [1, 2] [1, 2] =
     Inr [\<lparr>n_rows = 2, n_cols = 1, mem = [0, - (4 / 5)]\<rparr>,
          \<lparr>n_rows = 2, n_cols = 1, mem = [1 / 10, 0]\<rparr>,
          \<lparr>n_rows = 2, n_cols = 1, mem = [1, 0]\<rparr>] \<and>
   trace toy_out_end ! 2 = EvUpdate \<lparr>n_rows = 2, n_cols = 1, mem = [1, - (4 / 5)]\<rparr>"
  using toy_Step_end by (simp add: toy_unfold toy_out_end_def)

text \<open>
  C2 (the code departs from the claim).  The claim: in a flush triggered by a terminal
  step the bootstrap value is 0 for the last buffered transition, the one at
  \<open>pendingIndex - 1\<close>.  Line 206 compares \<open>i\<close> with \<open>pending.size() - 1\<close> instead.  In
  the call above the terminal transition sits at index 0 of a buffer of three: its
  target is \<open>1 + 0.9 * 2\<close>, bootstrapped from the target network, and the zero
  bootstrap goes to the unwritten entry at index 2.  The learning network ends at
  \<open>[1/2, 12/5]\<close>; a target of 1 for the terminal transition alone would give
  \<open>[1, 3/2]\<close>.
\<close>

theorem terminal_transition_bootstrapped:
  "Step toy (toy_worker False 2) toy_shared 0 = Inr toy_out_end \<and>
   pending (this toy_out_end) ! 0 = toy_transition 2 \<and>
   target_value toy_config True (length (pending (this toy_out_end))) 0 (toy_transition 2) [1, 2] =
     Inr (1 + 9 / 10 * 2) \<and>
   target_value toy_config True (length (pending (this toy_out_end))) 2 blank [1, 2] =
     Inr (0 + 9 / 10 * 0) \<and>
   transition_gradient toy toy_config True 3 0 (toy_transition 2) [1, 2] [1, 2] =
     Inr (\<lparr>n_rows = 2, n_cols = 1, mem = [0, 2 - (1 + 9 / 10 * 2)]\<rparr>, [1, 2], [1, 2]) \<and>
   learningNetwork (refs toy_out_end) = [1 / 2, 12 / 5]"
  using toy_Step_end by (simp add: toy_unfold toy_out_end_def)

text \<open>
  C3.  The gradient that a flush hands to the optimizer, and with which the optimizer
  updates the shared learning network, is the elementwise sum of the per-transition
  gradients, clamped elementwise after the summation; the per-transition gradients enter
  the sum as the network's \<open>Backward\<close> returned them.  With a non-negative limit every
  element of the applied gradient lies between minus the limit and the limit.
\<close>

theorem flush_applies_clamped_sum:
  assumes "flush ops tm w r = Inr (w', r', evs)"
  shows "\<exists>gs. transition_gradients ops (config w) tm (pending w) 0 (network w) (targetNetwork r)
                 = Inr gs \<and>
              (let P = Parameters ops (learningNetwork r);
                   G = transform (clamp (GradientLimit (config w)))
                         (elementwise_sum (n_rows P) (n_cols P) gs)
               in evs = [EvUpdate G, EvRefresh] \<and>
                  learningNetwork r' =
                    set_Parameters ops (learningNetwork r)
                      (fst (Update ops (updater w) P (StepSize (config w)) G)) \<and>
                  (0 \<le> GradientLimit (config w) \<longrightarrow>
                     (\<forall>x\<in>set (mem G). - GradientLimit (config w) \<le> x \<and>
                                        x \<le> GradientLimit (config w))))"
proof -
  let ?P = "Parameters ops (learningNetwork r)"
  from flush_gradient[OF assms] obtain gs where gs:
    "transition_gradients ops (config w) tm (pending w) 0 (network w) (targetNetwork r) = Inr gs"
    "evs = [EvUpdate (transform (clamp (GradientLimit (config w)))
                       (elementwise_sum (n_rows ?P) (n_cols ?P) gs)), EvRefresh]"
    by blast
  let ?G = "transform (clamp (GradientLimit (config w))) (elementwise_sum (n_rows ?P) (n_cols ?P) gs)"
  from flush_update[OF assms] gs(2) have up:
    "learningNetwork r' =
       set_Parameters ops (learningNetwork r)
         (fst (Update ops (updater w) ?P (StepSize (config w)) ?G))"
    by auto
  have bd: "0 \<le> GradientLimit (config w) \<longrightarrow>
      (\<forall>x\<in>set (mem ?G). - GradientLimit (config w) \<le> x \<and> x \<le> GradientLimit (config w))"
    by (auto simp: transform_def clamp_bounds)
  show ?thesis
    unfolding Let_def
    by (rule exI[of _ gs], intro conjI) (rule gs(1), rule gs(2), rule up, rule bd)
qed

theorem flush_applies_clamped_sum_witness:
  "flush toy False toy_full toy_shared =
     Inr (toy_full\<lparr>network := [1, 5 / 2], pendingIndex := 0\<rparr>,
          toy_shared\<lparr>learningNetwork := [1, 5 / 2]\<rparr>,
          [EvUpdate \<lparr>n_rows = 2, n_cols = 1, mem = [0, - 1]\<rparr>, EvRefresh]) \<and>
   transition_gradients toy toy_config False (pending toy_full) 0 [1, 2] [1, 2] =
     Inr [\<lparr>n_rows = 2, n_cols = 1, mem = [0, - (4 / 5)]\<rparr>,
          \<lparr>n_rows = 2, n_cols = 1, mem = [0, - (4 / 5)]\<rparr>,
          \<lparr>n_rows = 2, n_cols = 1, mem = [0, - (4 / 5)]\<rparr>] \<and>
   transform (clamp (GradientLimit toy_config))
     (elementwise_sum 2 1
        [\<lparr>n_rows = 2, n_cols = 1, mem = [0, - (4 / 5)]\<rparr>,
         \<lparr>n_rows = 2, n_cols = 1, mem = [0, - (4 / 5)]\<rparr>,
         \<lparr>n_rows = 2, n_cols = 1, mem = [0, - (4 / 5)]\<rparr>]) =
     \<lparr>n_rows = 2, n_cols = 1, mem = [0, - 1]\<rparr>"
proof -
  have f: "config toy_full = toy_config" "network toy_full = [1, 2]"
    "targetNetwork toy_shared = [1, 2]"
    "Parameters toy (learningNetwork toy_shared) = \<lparr>n_rows = 2, n_cols = 1, mem = [1, 2]\<rparr>"
    by (simp_all add: toy_full_def toy_worker_def toy_shared_def toy_def)
  from flush_applies_clamped_sum[OF toy_flush]
  have "[EvUpdate \<lparr>n_rows = 2, n_cols = 1, mem = [0, - 1]\<rparr>, EvRefresh] =
        [EvUpdate (transform (clamp (GradientLimit toy_config))
           (elementwise_sum 2 1
              [\<lparr>n_rows = 2, n_cols = 1, mem = [0, - (4 / 5)]\<rparr>,
               \<lparr>n_rows = 2, n_cols = 1, mem = [0, - (4 / 5)]\<rparr>,
               \<lparr>n_rows = 2, n_cols = 1, mem = [0, - (4 / 5)]\<rparr>])), EvRefresh]"
    unfolding f toy_gradients_full Let_def mat.simps sum.inject by blast
  then show ?thesis using toy_flush toy_gradients_full by simp
qed

text \<open>
  C4.  A call of \<open>Step\<close> returns true exactly when the environment's terminal predicate
  holds for the next state or the step counter, incremented for this step, has reached
  \<open>StepLimit\<close>.  So an episode that starts with the counter at 0 under a positive limit
  makes at most \<open>StepLimit\<close> calls, and as long as it has not ended it has made fewer,
  whatever the environment answers.
\<close>

theorem episode_ends_iff_terminal_or_limit:
  fixes ops :: "('s, 'n, 'p, 'u, 'w) collaborators"
  shows "(\<forall>w r wd out. Step ops w r wd = Inr out \<longrightarrow>
            ret out =
              ((case env_response ops w r wd of ((rew, nxt), wd') \<Rightarrow> IsTerminal ops nxt wd') \<or>
               StepLimit (config w) \<le> steps w + 1)) \<and>
         (\<forall>w ins n ended. episode_calls ops w ins = Inr (n, ended) \<longrightarrow>
            steps w = 0 \<longrightarrow> 0 < StepLimit (config w) \<longrightarrow>
            n \<le> unat (StepLimit (config w)) \<and> (ended \<or> n < unat (StepLimit (config w))))"
proof (intro conjI allI impI)
  fix w :: "('s, 'n, 'u) worker" and r :: "('n, 'p) shared" and wd :: 'w
    and out :: "('s, 'n, 'p, 'u, 'w) outcome"
  assume "Step ops w r wd = Inr out"
  then show "ret out =
      ((case env_response ops w r wd of ((rew, nxt), wd') \<Rightarrow> IsTerminal ops nxt wd') \<or>
       StepLimit (config w) \<le> steps w + 1)"
    by (rule Step_terminal_iff)
next
  fix w :: "('s, 'n, 'u) worker" and ins :: "(('n, 'p) shared \<times> 'w) list" and n ended
  assume a: "episode_calls ops w ins = Inr (n, ended)" "steps w = 0" "0 < StepLimit (config w)"
  from episode_calls_bound[OF a(1)] a(2,3)
  show "n \<le> unat (StepLimit (config w))" "ended \<or> n < unat (StepLimit (config w))"
    by simp_all
qed

theorem episode_ends_iff_terminal_or_limit_witness:
  "Step toy (toy_worker False 0) toy_shared 0 = Inr toy_out_go \<and> \<not> ret toy_out_go \<and>
   Step toy (toy_worker True 2) toy_shared 0 = Inr toy_eval_end \<and> ret toy_eval_end \<and>
   IsTerminal toy 3 1 \<and>
   Step toy ((toy_worker True 0)\<lparr>steps := 9\<rparr>) toy_shared 0 = Inr toy_eval_end \<and>
   \<not> IsTerminal toy 1 1 \<and> StepLimit toy_config \<le> 9 + 1 \<and>
   episode_calls toy (toy_worker True 2) [(toy_shared, 0)] = Inr (1, True) \<and>
   (1::nat) \<le> unat (StepLimit toy_config)"
proof -
  note c = episode_ends_iff_terminal_or_limit[of toy]
  have e: "episode_calls toy (toy_worker True 2) [(toy_shared, 0)] = Inr (1, True)"
    by (simp add: toy_Step_eval_end toy_eval_end_def)
  have "ret toy_out_go = (IsTerminal toy 1 1 \<or> StepLimit toy_config \<le> 0 + 1)"
    using c[THEN conjunct1, rule_format, OF toy_Step_go]
    by (simp add: env_response_def first_action_def toy_def toy_worker_def)
  moreover have "ret toy_eval_end = (IsTerminal toy 3 1 \<or> StepLimit toy_config \<le> 0 + 1)"
    using c[THEN conjunct1, rule_format, OF toy_Step_eval_end]
    by (simp add: env_response_def first_action_def toy_def toy_worker_def)
  moreover have "ret toy_eval_end = (IsTerminal toy 1 1 \<or> StepLimit toy_config \<le> 9 + 1)"
    using c[THEN conjunct1, rule_format, OF toy_Step_eval_limit]
    by (simp add: env_response_def first_action_def toy_def toy_worker_def)
  moreover have "(1::nat) \<le> unat (StepLimit toy_config)"
    using c[THEN conjunct2, rule_format, OF e] by (simp add: toy_worker_def toy_config_def)
  ultimately show ?thesis
    using toy_Step_go toy_Step_eval_end toy_Step_eval_limit e
    by (simp add: toy_def toy_config_def toy_eval_end_def toy_out_go_def word_le_nat_alt)
qed

text \<open>
  C5.  A call in stochastic mode writes one transition at \<open>pendingIndex\<close> and
  increments the index, which from a value below \<open>UpdateInterval\<close> reaches at most
  \<open>UpdateInterval\<close>; a flush runs exactly when the step is terminal or the incremented
  index has reached \<open>UpdateInterval\<close>, and then the index is back at 0.  So over any
  sequence of calls by any workers the index of every worker stays below
  \<open>UpdateInterval\<close> between calls, and with a buffer of at least \<open>UpdateInterval\<close>
  entries no call writes outside the buffer.
\<close>

theorem pendingIndex_bounded:
  fixes ops :: "('s, 'n, 'p, 'u, 'w) collaborators"
  shows "(\<forall>w r wd out w1 l wd1.
            Step ops w r wd = Inr out \<longrightarrow> \<not> deterministic w \<longrightarrow>
            interact ops w r wd = (w1, l, wd1) \<longrightarrow>
              pending (this out) =
                (pending w)[unat (pendingIndex w) :=
                   \<lparr>t_state = state w, t_action = action w1, t_reward = reward l,
                    t_nextState = nextState l, t_nextAction = nextAction l\<rparr>] \<and>
              EvAppend (unat (pendingIndex w)) \<in> set (trace out) \<and>
              (\<exists>G. EvUpdate G \<in> set (trace out)) =
                (ret out \<or> UpdateInterval (config w) \<le> pendingIndex w + 1) \<and>
              pendingIndex (this out) =
                (if ret out \<or> UpdateInterval (config w) \<le> pendingIndex w + 1 then 0
                 else pendingIndex w + 1) \<and>
              (pendingIndex w < UpdateInterval (config w) \<longrightarrow>
                 pendingIndex (append_pending w1 l) \<le> UpdateInterval (config w))) \<and>
         (\<forall>sched s s'.
            run ops sched s = Inr s' \<longrightarrow>
            (\<forall>w\<in>set (workers s). pendingIndex w < UpdateInterval (config w)) \<longrightarrow>
            (\<forall>w\<in>set (workers s'). pendingIndex w < UpdateInterval (config w))) \<and>
         (\<forall>sched s.
            (\<forall>w\<in>set (workers s). pendingIndex w < UpdateInterval (config w) \<and>
                unat (UpdateInterval (config w)) \<le> length (pending w)) \<longrightarrow>
            run ops sched s \<noteq> Inl BufferOverrun)"
proof (intro conjI allI impI)
  fix w :: "('s, 'n, 'u) worker" and r :: "('n, 'p) shared" and wd wd1 :: 'w
    and out :: "('s, 'n, 'p, 'u, 'w) outcome" and w1 :: "('s, 'n, 'u) worker" and l :: "'s locals"
  assume a: "Step ops w r wd = Inr out" "\<not> deterministic w" "interact ops w r wd = (w1, l, wd1)"
  show "pending (this out) =
          (pending w)[unat (pendingIndex w) :=
             \<lparr>t_state = state w, t_action = action w1, t_reward = reward l,
              t_nextState = nextState l, t_nextAction = nextAction l\<rparr>]"
    using a by (rule Step_append)
  show "EvAppend (unat (pendingIndex w)) \<in> set (trace out)"
    using a by (rule Step_pending(3))
  show "(\<exists>G. EvUpdate G \<in> set (trace out)) =
          (ret out \<or> UpdateInterval (config w) \<le> pendingIndex w + 1)"
    using a by (rule Step_pending(2))
  show "pendingIndex (this out) =
          (if ret out \<or> UpdateInterval (config w) \<le> pendingIndex w + 1 then 0
           else pendingIndex w + 1)"
    using Step_episode_fields(2)[OF a(1)] a(2) by simp
  show "pendingIndex (append_pending w1 l) \<le> UpdateInterval (config w)"
    if "pendingIndex w < UpdateInterval (config w)"
    using that interact_frame(4)[OF a(3)] by (simp add: append_pending_def inc_le)
next
  fix sched and s s' :: "('s, 'n, 'p, 'u, 'w) system"
  assume "run ops sched s = Inr s'"
    "\<forall>w\<in>set (workers s). pendingIndex w < UpdateInterval (config w)"
  then show "\<forall>w\<in>set (workers s'). pendingIndex w < UpdateInterval (config w)"
    by (rule run_pendingIndex_inv)
next
  fix sched and s :: "('s, 'n, 'p, 'u, 'w) system"
  assume "\<forall>w\<in>set (workers s). pendingIndex w < UpdateInterval (config w) \<and>
              unat (UpdateInterval (config w)) \<le> length (pending w)"
  then show "run ops sched s \<noteq> Inl BufferOverrun"
    by (rule run_no_overrun)
qed

theorem pendingIndex_bounded_witness:
  "Step toy (toy_worker False 0) toy_shared 0 = Inr toy_out_go \<and>
   pending (this toy_out_go) = [toy_transition 0, blank, blank] \<and>
   pendingIndex (this toy_out_go) = 1 \<and>
   EvAppend 0 \<in> set (trace toy_out_go) \<and>
   run toy [0, 1, 0] toy_system = Inr toy_system_end \<and>
   pendingIndex (workers toy_system_end ! 0) < 3 \<and>
   pendingIndex (workers toy_system_end ! 1) < 3 \<and>
   run toy [0, 1, 0] toy_system \<noteq> Inl BufferOverrun"
proof -
  note c = pendingIndex_bounded[of toy]
  have nd: "\<not> deterministic (toy_worker False 0)" by (simp add: toy_worker_def)
  note one = c[THEN conjunct1, rule_format, OF toy_Step_go nd toy_interact_go]
  have inv: "\<forall>w\<in>set (workers toy_system). pendingIndex w < UpdateInterval (config w) \<and>
                unat (UpdateInterval (config w)) \<le> length (pending w)"
    by (simp add: toy_system_def toy_worker_def toy_config_def)
  then have inv': "\<forall>w\<in>set (workers toy_system). pendingIndex w < UpdateInterval (config w)"
    by blast
  have "\<forall>w\<in>set (workers toy_system_end). pendingIndex w < UpdateInterval (config w)"
    using c[THEN conjunct2, THEN conjunct1, THEN spec, THEN spec, THEN spec, THEN mp, THEN mp,
        OF toy_run inv'] .
  then have "pendingIndex (workers toy_system_end ! 0) < 3 \<and>
             pendingIndex (workers toy_system_end ! 1) < 3"
    by (simp add: toy_system_end_def toy_out_sync_def toy_eval_worker_def toy_worker_def toy_config_def)
  moreover have "run toy [0, 1, 0] toy_system \<noteq> Inl BufferOverrun"
    using c[THEN conjunct2, THEN conjunct2, THEN spec, THEN spec, THEN mp, OF inv] .
  ultimately show ?thesis
    using one toy_Step_go toy_run
    by (simp add: toy_worker_def toy_transition_def blank_def toy_out_go_def toy_config_def)
qed

text \<open>
  C6.  In deterministic mode a call always returns normally.  Let \<open>w1\<close> be the worker
  at line 162, after the interaction with the environment (which has accounted for the
  reward and the step and left the buffer, its index and the optimizer alone).  If the
  step is not terminal, the five reference parameters are left as they were, nothing is
  buffered, no gradient is computed, the worker is \<open>w1\<close> moved on to the next state and
  action, and the call returns false.  If the step is terminal, \<open>totalReward\<close> receives
  the episode return and nothing else of the reference parameters changes, the worker is
  reset, its local network becomes the shared learning network, and the call returns
  true.
\<close>

theorem deterministic_step_frame:
  assumes "deterministic w" "interact ops w r wd = (w1, l, wd1)"
  shows "Step ops w r wd =
           (if terminal l
            then Inr \<lparr>ret = True,
                      this = (fst (Reset ops w1 wd1))\<lparr>network := learningNetwork r\<rparr>,
                      refs = r\<lparr>totalReward := episodeReturn w + reward l\<rparr>,
                      world = snd (Reset ops w1 wd1),
                      trace = [EvReport (episodeReturn w + reward l), EvReset, EvRefresh]\<rparr>
            else Inr \<lparr>ret = False, this = w1\<lparr>state := nextState l, action := nextAction l\<rparr>,
                      refs = r, world = wd1, trace = []\<rparr>) \<and>
         pending w1 = pending w \<and> pendingIndex w1 = pendingIndex w \<and> updater w1 = updater w \<and>
         state w1 = state w \<and> steps w1 = steps w + 1 \<and>
         episodeReturn w1 = episodeReturn w + reward l \<and>
         pending (fst (Reset ops w1 wd1)) = pending w \<and>
         updater (fst (Reset ops w1 wd1)) = updater w \<and>
         action (fst (Reset ops w1 wd1)) = action_size ops \<and>
         steps (fst (Reset ops w1 wd1)) = 0 \<and> episodeReturn (fst (Reset ops w1 wd1)) = 0 \<and>
         pendingIndex (fst (Reset ops w1 wd1)) = 0"
proof -
  obtain w' wd' where rs: "Reset ops w1 wd1 = (w', wd')" by (cases "Reset ops w1 wd1") auto
  show ?thesis
    using Step_deterministic[OF assms] interact_frame[OF assms(2)] Reset_frame[OF rs] rs
    by simp
qed

theorem deterministic_step_frame_witness:
  "Step toy (toy_worker True 0) toy_shared 0 =
     Inr \<lparr>ret = False, this = toy_eval_worker, refs = toy_shared, world = 1, trace = []\<rparr> \<and>
   Step toy (toy_worker True 2) toy_shared 0 =
     Inr \<lparr>ret = True, this = toy_worker True 0, refs = toy_shared\<lparr>totalReward := 1\<rparr>,
          world = 1, trace = [EvReport 1, EvReset, EvRefresh]\<rparr>"
proof -
  have d: "deterministic (toy_worker True 0)" "deterministic (toy_worker True 2)"
    by (simp_all add: toy_worker_def)
  show ?thesis
    using deterministic_step_frame[OF d(1) toy_interact_eval_go, THEN conjunct1]
      deterministic_step_frame[OF d(2) toy_interact_eval_end, THEN conjunct1]
    by (simp add: toy_eval_worker_def toy_worker_def toy_shared_def Reset_def base_Reset_def toy_def)
qed

text \<open>
  C7.  Every call of \<open>Step\<close> in stochastic mode increments the shared step counter by
  exactly one and a call in deterministic mode leaves it alone; so after any sequence of
  calls, by any workers, the counter has grown by the number of stochastic-mode calls
  (in 64-bit arithmetic).
\<close>

theorem totalSteps_counts_stochastic_calls:
  fixes ops :: "('s, 'n, 'p, 'u, 'w) collaborators"
  shows "(\<forall>w r wd out. Step ops w r wd = Inr out \<longrightarrow>
            totalSteps (refs out) = (if deterministic w then totalSteps r else totalSteps r + 1)) \<and>
         (\<forall>sched s s'. run ops sched s = Inr s' \<longrightarrow>
            totalSteps (common s') =
              totalSteps (common s) + of_nat (stochastic_calls (workers s) sched))"
proof (intro conjI allI impI)
  fix w :: "('s, 'n, 'u) worker" and r :: "('n, 'p) shared" and wd :: 'w
    and out :: "('s, 'n, 'p, 'u, 'w) outcome"
  assume "Step ops w r wd = Inr out"
  then show "totalSteps (refs out) = (if deterministic w then totalSteps r else totalSteps r + 1)"
    by (rule Step_totalSteps)
next
  fix sched and s s' :: "('s, 'n, 'p, 'u, 'w) system"
  assume "run ops sched s = Inr s'"
  then show "totalSteps (common s') =
      totalSteps (common s) + of_nat (stochastic_calls (workers s) sched)"
    by (rule run_totalSteps)
qed

theorem totalSteps_counts_stochastic_calls_witness:
  "Step toy (toy_worker False 0) toy_shared 0 = Inr toy_out_go \<and>
   totalSteps (refs toy_out_go) = totalSteps toy_shared + 1 \<and>
   Step toy (toy_worker True 0) toy_shared 0 = Inr toy_eval_go \<and>
   totalSteps (refs toy_eval_go) = totalSteps toy_shared \<and>
   run toy [0, 1, 0] toy_system = Inr toy_system_end \<and>
   stochastic_calls (workers toy_system) [0, 1, 0] = 2 \<and>
   totalSteps (common toy_system_end) = totalSteps (common toy_system) + 2"
proof -
  note c = totalSteps_counts_stochastic_calls[of toy]
  have "totalSteps (refs toy_out_go) = totalSteps toy_shared + 1"
    using c[THEN conjunct1, rule_format, OF toy_Step_go] by (simp add: toy_worker_def)
  moreover have "totalSteps (refs toy_eval_go) = totalSteps toy_shared"
    using c[THEN conjunct1, rule_format, OF toy_Step_eval_go] by (simp add: toy_worker_def)
  moreover have k: "stochastic_calls (workers toy_system) [0, 1, 0] = 2"
    by (simp add: stochastic_calls_def toy_system_def toy_worker_def)
  moreover have "totalSteps (common toy_system_end) = totalSteps (common toy_system) + 2"
    using c[THEN conjunct2, rule_format, OF toy_run] k by simp
  ultimately show ?thesis
    using toy_Step_go toy_Step_eval_go toy_run by simp
qed

text \<open>
  C8 (the code departs from the claim).  The claim: a call in stochastic mode copies the
  learning network into the target network exactly when the counter after this call's
  increment is a multiple of \<open>TargetNetworkSyncInterval\<close>, so after exactly that many
  stochastic steps the target network equals the learning network.  Line 246 tests the
  shared counter as it is then, not the value that the increment of line 178 produced.
  Two training workers share the interval 2.  The first makes one call.  Its second
  call increments the counter to 2; the other worker's increment makes it 3 before the
  first reaches line 246; both calls find 3 and neither copies.  The flush of the first
  worker has changed the learning network, and the target network is still the old one.
  The same calls taken one after the other do copy.
\<close>

theorem sync_missed_when_calls_overlap:
  "begin_call toy toy_mid_worker toy_mid_shared 1 =
     (toy_counted, toy_counted_locals, toy_mid_shared\<lparr>totalSteps := 2\<rparr>, 2) \<and>
   (2 :: size_t) mod TargetNetworkSyncInterval (config toy_mid_worker) = 0 \<and>
   finish_call toy toy_counted toy_counted_locals (toy_mid_shared\<lparr>totalSteps := 3\<rparr>) 3 =
     Inr toy_out_raced \<and>
   EvSync \<notin> set (trace toy_out_raced) \<and>
   targetNetwork (refs toy_out_raced) = [1, 2] \<and>
   learningNetwork (refs toy_out_raced) = [1 / 2, 5 / 2] \<and>
   interleave toy [0, 0, 0, 1, 0, 1] toy_pair = Inr toy_pair_raced \<and>
   totalSteps (shared_state toy_pair_raced) = 3 \<and>
   targetNetwork (shared_state toy_pair_raced) = [1, 2] \<and>
   learningNetwork (shared_state toy_pair_raced) = [1 / 2, 5 / 2] \<and>
   interleave toy [0, 0, 0, 0, 1, 1] toy_pair =
     Inr (toy_pair_raced\<lparr>shared_state :=
            (shared_state toy_pair_raced)\<lparr>targetNetwork := [1 / 2, 5 / 2]\<rparr>\<rparr>)"
  by (simp add: toy_unfold)

text \<open>
  C9.  A call of \<open>Step\<close> that returns false leaves \<open>totalReward\<close> as it was, in both
  modes; a call that returns true writes the episode return to it, that is the return
  accumulated before the call plus the reward of this step.
\<close>

theorem totalReward_written_iff_terminated:
  assumes "Step ops w r wd = Inr out"
  shows "(\<not> ret out \<longrightarrow> totalReward (refs out) = totalReward r) \<and>
         (ret out \<longrightarrow>
            totalReward (refs out) = episodeReturn w + fst (fst (env_response ops w r wd)))"
proof -
  obtain w1 l wd1 where i: "interact ops w r wd = (w1, l, wd1)"
    by (cases "interact ops w r wd") auto
  obtain rew nxt wd2 where e: "env_response ops w r wd = ((rew, nxt), wd2)"
    by (cases "env_response ops w r wd") auto
  show ?thesis
    using Step_ret[OF assms i] Step_totalReward[OF assms i] interact_terminal(3)[OF i e] e
    by simp
qed

theorem totalReward_written_iff_terminated_witness:
  "Step toy (toy_worker False 0) toy_shared 0 = Inr toy_out_go \<and>
   \<not> ret toy_out_go \<and> totalReward (refs toy_out_go) = totalReward toy_shared \<and>
   Step toy (toy_worker False 2) toy_shared 0 = Inr toy_out_end \<and>
   ret toy_out_end \<and> totalReward (refs toy_out_end) = 0 + 1"
  using totalReward_written_iff_terminated[OF toy_Step_go]
    totalReward_written_iff_terminated[OF toy_Step_end] toy_Step_go toy_Step_end
  by (simp add: toy_out_go_def toy_out_end_def toy_unfold)

text \<open>
  C10.  In a call in stochastic mode that both flushes and syncs, the effects come in
  this order: the optimizer's update of the learning network, the refresh of the local
  network, the copy into the target network, the policy's \<open>Anneal\<close>, and then the report
  and the reset if the episode ends.  The target network and the local network both
  hold the learning network as the optimizer left it.
\<close>

theorem flush_precedes_sync_precedes_anneal:
  assumes "Step ops w r wd = Inr out" "\<not> deterministic w" "interact ops w r wd = (w1, l, wd1)"
    "terminal l \<or> UpdateInterval (config w) \<le> pendingIndex w + 1"
    "(totalSteps r + 1) mod TargetNetworkSyncInterval (config w) = 0"
  shows "\<exists>G. trace out =
            [EvCount, EvAppend (unat (pendingIndex w)), EvUpdate G, EvRefresh, EvSync, EvAnneal] @
            (if terminal l then [EvReport (episodeReturn w1), EvReset] else []) \<and>
          learningNetwork (refs out) =
            set_Parameters ops (learningNetwork r)
              (fst (Update ops (updater w) (Parameters ops (learningNetwork r))
                     (StepSize (config w)) G)) \<and>
          targetNetwork (refs out) = learningNetwork (refs out) \<and>
          network (this out) = learningNetwork (refs out) \<and>
          policy (refs out) = Anneal ops (policy r)"
  using assms by (rule Step_flush_then_sync)

theorem flush_precedes_sync_precedes_anneal_witness:
  "Step toy toy_mid_worker toy_mid_shared 2 = Inr toy_out_sync \<and>
   trace toy_out_sync =
     [EvCount, EvAppend 1, EvUpdate \<lparr>n_rows = 2, n_cols = 1, mem = [1, - 1]\<rparr>, EvRefresh,
      EvSync, EvAnneal, EvReport 2, EvReset] \<and>
   learningNetwork (refs toy_out_sync) = [1 / 2, 5 / 2] \<and>
   targetNetwork (refs toy_out_sync) = [1 / 2, 5 / 2] \<and>
   network (this toy_out_sync) = [1 / 2, 5 / 2] \<and>
   policy (refs toy_out_sync) = Suc 1"
proof -
  have nd: "\<not> deterministic toy_mid_worker" by (simp add: toy_mid_worker_def toy_worker_def)
  have fl: "terminal \<lparr>reward = 1, nextState = 3, nextAction = 1, terminal = True\<rparr> \<or>
      UpdateInterval (config toy_mid_worker) \<le> pendingIndex toy_mid_worker + 1"
    by simp
  have sy: "(totalSteps toy_mid_shared + 1) mod TargetNetworkSyncInterval (config toy_mid_worker) = 0"
    by (simp add: toy_mid_shared_def toy_mid_worker_def toy_worker_def toy_shared_def toy_config_def)
  from flush_precedes_sync_precedes_anneal[OF toy_Step_sync nd toy_interact_sync fl sy]
  show ?thesis
    using toy_Step_sync
    by (auto simp: toy_out_sync_def toy_mid_shared_def toy_shared_def toy_mid_worker_def
        toy_worker_def toy_config_def toy_def)
qed

end
